theory Spec2Isabelle
  imports Complex_Main "HOL-Library.Multiset"
begin

section \<open>Data model (src/app/src/App.tsx, lines 13-29)\<close>

text \<open>
  The TypeScript interfaces \<^verbatim>\<open>CityPair\<close> and \<^verbatim>\<open>CityNode\<close>. A JavaScript \<^verbatim>\<open>number\<close>
  is modelled as a real number. A JavaScript \<^verbatim>\<open>string\<close> is a sequence of UTF-16 code
  units; it is modelled as the list of its code units, each a natural number (below
  65536 in every string of the program), so that \<^verbatim>\<open>length\<close> counts code units as
  \<^verbatim>\<open>.length\<close> does. \<open>ascii\<close> writes a string of ASCII characters as such a list. The
  pair \<open>coords\<close> is \<^verbatim>\<open>[lng, lat]\<close>, in this order.
\<close>

type_synonym jsstring = "nat list"

abbreviation ascii :: "string \<Rightarrow> jsstring" where
  "ascii s \<equiv> map of_char s"

record CityPair =
  city1 :: jsstring
  country1 :: jsstring
  lat1 :: real
  lng1 :: real
  city2 :: jsstring
  country2 :: jsstring
  lat2 :: real
  lng2 :: real

text \<open>
  \<^verbatim>\<open>CityNode\<close> and the label entries of the two placement passes both carry
  \<^verbatim>\<open>name\<close> and \<^verbatim>\<open>country\<close>; the two fields are declared once and both records extend them.
\<close>

record Named =
  name :: jsstring
  country :: jsstring

record CityNode = Named +
  coords :: "real \<times> real"
  connections :: nat

text \<open>\<^verbatim>\<open>s || ""\<close> on a string: the empty string is the only falsy string.\<close>

definition or_empty :: "jsstring \<Rightarrow> jsstring" where
  "or_empty s = (if s = [] then [] else s)"

section \<open>Search filter (lines 140-150)\<close>

text \<open>\<^verbatim>\<open>s.includes(t)\<close>: \<open>t\<close> occurs in \<open>s\<close> as a contiguous block.\<close>

fun starts_with :: "jsstring \<Rightarrow> jsstring \<Rightarrow> bool" where
  "starts_with s [] = True"
| "starts_with [] (c # t) = False"
| "starts_with (a # s) (c # t) = (a = c \<and> starts_with s t)"

fun includes_str :: "jsstring \<Rightarrow> jsstring \<Rightarrow> bool" where
  "includes_str [] t = (t = [])"
| "includes_str (a # s) t = (starts_with (a # s) t \<or> includes_str s t)"

text \<open>
  \<^verbatim>\<open>String.prototype.toLowerCase\<close> is a built-in of the JavaScript engine, not code of the
  repository: the filter takes it as the parameter \<open>toLowerCase\<close>, a function from strings
  to strings. The engine's function follows Unicode's case conversion; it is not a map
  over the code units (a capital sigma becomes a final or a medial small sigma by its
  context, and some code units become two).
\<close>

definition filteredPairs :: "(jsstring \<Rightarrow> jsstring) \<Rightarrow> CityPair list \<Rightarrow> jsstring \<Rightarrow> CityPair list" where
  "filteredPairs toLowerCase ps debouncedSearch =
     (if debouncedSearch = [] then ps
      else let lower = toLowerCase debouncedSearch
           in filter (\<lambda>p. includes_str (toLowerCase (or_empty (city1 p))) lower
                        \<or> includes_str (toLowerCase (or_empty (city2 p))) lower
                        \<or> includes_str (toLowerCase (or_empty (country1 p))) lower
                        \<or> includes_str (toLowerCase (or_empty (country2 p))) lower) ps)"

section \<open>Node builder (lines 153-178)\<close>

text \<open>
  The key \<^verbatim>\<open>`${lat}|${lng}`\<close> is modelled by the pair \<open>(lat, lng)\<close>. The JavaScript \<^verbatim>\<open>Map\<close>
  keeps insertion order, which \<^verbatim>\<open>Array.from(map.values())\<close> exposes, so the map is an
  association list in insertion order.
\<close>

type_synonym key = "real \<times> real"
type_synonym node_map = "(key \<times> CityNode) list"

definition has :: "node_map \<Rightarrow> key \<Rightarrow> bool" where
  "has m k = (k \<in> fst ` set m)"

definition set_if_absent :: "key \<Rightarrow> CityNode \<Rightarrow> node_map \<Rightarrow> node_map" where
  "set_if_absent k n m = (if \<not> has m k then m @ [(k, n)] else m)"

text \<open>\<^verbatim>\<open>map.get(key)!.connections++\<close>\<close>

definition increment :: "key \<Rightarrow> node_map \<Rightarrow> node_map" where
  "increment k m =
     map (\<lambda>(k', n). if k' = k then (k', n\<lparr>connections := connections n + 1\<rparr>) else (k', n)) m"

definition key1 :: "CityPair \<Rightarrow> key" where
  "key1 p = (lat1 p, lng1 p)"

definition key2 :: "CityPair \<Rightarrow> key" where
  "key2 p = (lat2 p, lng2 p)"

definition add_pair :: "node_map \<Rightarrow> CityPair \<Rightarrow> node_map" where
  "add_pair m p =
     (let m1 = set_if_absent (key1 p)
                 \<lparr>name = city1 p, country = or_empty (country1 p),
                  coords = (lng1 p, lat1 p), connections = 0\<rparr> m;
          m2 = increment (key1 p) m1;
          m3 = set_if_absent (key2 p)
                 \<lparr>name = city2 p, country = or_empty (country2 p),
                  coords = (lng2 p, lat2 p), connections = 0\<rparr> m2
      in increment (key2 p) m3)"

definition cityMap :: "CityPair list \<Rightarrow> node_map" where
  "cityMap filtered = foldl add_pair [] filtered"

definition cities :: "CityPair list \<Rightarrow> CityNode list" where
  "cities filtered = map snd (cityMap filtered)"

text \<open>\<^verbatim>\<open>findPairsForCity\<close> (lines 216-225).\<close>

definition findPairsForCity :: "CityPair list \<Rightarrow> CityNode \<Rightarrow> CityPair list" where
  "findPairsForCity filtered city =
     filter (\<lambda>p. (lng1 p = fst (coords city) \<and> lat1 p = snd (coords city))
               \<or> (lng2 p = fst (coords city) \<and> lat2 p = snd (coords city))) filtered"

text \<open>Quantities the statements about the node builder are written with.\<close>

definition conn_sum :: "node_map \<Rightarrow> nat" where
  "conn_sum m = sum_list (map (\<lambda>e. connections (snd e)) m)"

definition conn_at :: "node_map \<Rightarrow> key \<Rightarrow> nat" where
  "conn_at m k = (case map_of m k of None \<Rightarrow> 0 | Some n \<Rightarrow> connections n)"

definition endpoint_count :: "key \<Rightarrow> CityPair list \<Rightarrow> nat" where
  "endpoint_count k ps =
     length (filter (\<lambda>p. key1 p = k) ps) + length (filter (\<lambda>p. key2 p = k) ps)"

definition node_ok :: "key \<Rightarrow> CityNode \<Rightarrow> bool" where
  "node_ok k n = (coords n = (snd k, fst k))"

text \<open>A pair touches a coordinate \<open>[lng, lat]\<close> when one of its endpoints lies there; it is a
  self-loop there when both do.\<close>

definition touches :: "real \<times> real \<Rightarrow> CityPair \<Rightarrow> bool" where
  "touches c p = ((lng1 p, lat1 p) = c \<or> (lng2 p, lat2 p) = c)"

definition self_loop_at :: "real \<times> real \<Rightarrow> CityPair \<Rightarrow> bool" where
  "self_loop_at c p = ((lng1 p, lat1 p) = c \<and> (lng2 p, lat2 p) = c)"

text \<open>The test of the filter on one pair: the lower-cased term occurs in one of the four
  lower-cased fields.\<close>

definition lowered_match :: "(jsstring \<Rightarrow> jsstring) \<Rightarrow> jsstring \<Rightarrow> CityPair \<Rightarrow> bool" where
  "lowered_match toLowerCase t p =
     (includes_str (toLowerCase (city1 p)) (toLowerCase t)
      \<or> includes_str (toLowerCase (city2 p)) (toLowerCase t)
      \<or> includes_str (toLowerCase (country1 p)) (toLowerCase t)
      \<or> includes_str (toLowerCase (country2 p)) (toLowerCase t))"

text \<open>Case-insensitive containment, as the specification words it: some contiguous block
  of the field equals the term when letter case is ignored, that is, when both are
  lower-cased.\<close>

definition same_ignoring_case :: "(jsstring \<Rightarrow> jsstring) \<Rightarrow> jsstring \<Rightarrow> jsstring \<Rightarrow> bool" where
  "same_ignoring_case toLowerCase a b = (toLowerCase a = toLowerCase b)"

definition ci_substring :: "(jsstring \<Rightarrow> jsstring) \<Rightarrow> jsstring \<Rightarrow> jsstring \<Rightarrow> bool" where
  "ci_substring toLowerCase t f =
     (\<exists>pre mid post. f = pre @ mid @ post \<and> same_ignoring_case toLowerCase mid t)"

definition matches_term :: "(jsstring \<Rightarrow> jsstring) \<Rightarrow> jsstring \<Rightarrow> CityPair \<Rightarrow> bool" where
  "matches_term toLowerCase t p =
     (ci_substring toLowerCase t (city1 p) \<or> ci_substring toLowerCase t (city2 p)
      \<or> ci_substring toLowerCase t (country1 p) \<or> ci_substring toLowerCase t (country2 p))"

text \<open>
  \<open>toLowerCase\<close> acts code unit by code unit on the strings over a set \<open>U\<close> of code units
  when it maps each of them with one function on code units. The engine's function does
  so on the strings of code units below 256 (ASCII and Latin-1), with \<open>lower_unit\<close> below.
\<close>

definition unit_wise :: "(jsstring \<Rightarrow> jsstring) \<Rightarrow> (nat \<Rightarrow> nat) \<Rightarrow> nat set \<Rightarrow> bool" where
  "unit_wise toLowerCase f U = (\<forall>s. set s \<subseteq> U \<longrightarrow> toLowerCase s = map f s)"

definition fields_within :: "nat set \<Rightarrow> CityPair \<Rightarrow> bool" where
  "fields_within U p =
     (set (city1 p) \<subseteq> U \<and> set (city2 p) \<subseteq> U \<and> set (country1 p) \<subseteq> U \<and> set (country2 p) \<subseteq> U)"

text \<open>
  The engine's \<^verbatim>\<open>toLowerCase\<close> on strings of ASCII, Latin-1 and unaccented Greek letters,
  written out from Unicode's case conversion (with its condition for the final sigma)
  for the statements that need a concrete function. The
  capitals of ASCII (65 to 90), of Latin-1 (192 to 222 without 215) and of Greek (913 to
  937 without 930) move up by 32. The capital sigma (931) becomes the final small sigma
  (962) when a cased letter stands before it and none after it, and the medial small
  sigma (963) otherwise. Strings with other scripts or with case-ignorable characters
  next to a sigma are outside this function.
\<close>

definition lower_unit :: "nat \<Rightarrow> nat" where
  "lower_unit n =
     (if (65 \<le> n \<and> n \<le> 90) \<or> (192 \<le> n \<and> n \<le> 222 \<and> n \<noteq> 215) \<or> (913 \<le> n \<and> n \<le> 937 \<and> n \<noteq> 930)
      then n + 32 else n)"

definition cased :: "nat \<Rightarrow> bool" where
  "cased n =
     ((65 \<le> n \<and> n \<le> 90) \<or> (97 \<le> n \<and> n \<le> 122)
      \<or> n = 170 \<or> n = 181 \<or> n = 186
      \<or> (192 \<le> n \<and> n \<le> 255 \<and> n \<noteq> 215 \<and> n \<noteq> 247)
      \<or> (913 \<le> n \<and> n \<le> 937 \<and> n \<noteq> 930) \<or> (945 \<le> n \<and> n \<le> 969))"

fun lower_from :: "bool \<Rightarrow> jsstring \<Rightarrow> jsstring" where
  "lower_from after_cased [] = []"
| "lower_from after_cased (u # us) =
     (if u = 931 \<and> after_cased \<and> (case us of [] \<Rightarrow> True | v # _ \<Rightarrow> \<not> cased v)
      then 962 else lower_unit u)
     # lower_from (cased u) us"

definition toLowerCase_greek :: "jsstring \<Rightarrow> jsstring" where
  "toLowerCase_greek s = lower_from False s"

text \<open>A pair whose first city is written with the two Greek capitals alpha and sigma.\<close>

definition pair_sigma :: CityPair where
  "pair_sigma = \<lparr>city1 = [913, 931], country1 = ascii ''X'', lat1 = 10, lng1 = 10,
                 city2 = ascii ''B'', country2 = ascii ''Y'', lat2 = 20, lng2 = 20\<rparr>"

text \<open>The two-row dataset of the specification's scenario, the second row with another
  spelling of the first city, and a row whose two endpoints coincide.\<close>

definition pair_A_B :: CityPair where
  "pair_A_B = \<lparr>city1 = ascii ''A'', country1 = ascii ''X'', lat1 = 10, lng1 = 10,
               city2 = ascii ''B'', country2 = ascii ''Y'', lat2 = 20, lng2 = 20\<rparr>"

definition pair_A2_C :: CityPair where
  "pair_A2_C = \<lparr>city1 = ascii ''A2'', country1 = ascii ''X'', lat1 = 10, lng1 = 10,
               city2 = ascii ''C'', country2 = ascii ''Z'', lat2 = 30, lng2 = 30\<rparr>"

definition pair_loop :: CityPair where
  "pair_loop = \<lparr>city1 = ascii ''A'', country1 = ascii ''X'', lat1 = 10, lng1 = 10,
               city2 = ascii ''A'', country2 = ascii ''X'', lat2 = 10, lng2 = 10\<rparr>"

section \<open>Label placement (lines 256-352 and 357-430)\<close>

text \<open>
  The label entries \<^verbatim>\<open>{name, country, projected, labelX, labelY}\<close> and the placed rectangles
  \<^verbatim>\<open>{x, y, w, h}\<close> (fields \<open>rx\<close>, \<open>ry\<close>, \<open>rw\<close>, \<open>rh\<close>). The selection pass also stores the
  loop index \<^verbatim>\<open>idx\<close> in each rectangle and never reads it; it is left out.
\<close>

record Label = Named +
  projected :: "real \<times> real"
  labelX :: real
  labelY :: real

record LabelRect =
  rx :: real
  ry :: real
  rw :: real
  rh :: real

definition lh :: real where
  "lh = 15"

definition pad :: real where
  "pad = 2"

text \<open>\<^verbatim>\<open>c.name.length * 5.5 + 14\<close>\<close>

definition labelWidth :: "'a Named_scheme \<Rightarrow> real" where
  "labelWidth c = real (length (name c)) * 5.5 + 14"

text \<open>The test \<^verbatim>\<open>placedRects.some(r => cx < r.x + r.w + pad && cx + lw + pad > r.x &&
  cy < r.y + r.h + pad && cy + lh + pad > r.y)\<close>, first against one rectangle.\<close>

definition hits :: "real \<Rightarrow> real \<Rightarrow> real \<Rightarrow> LabelRect \<Rightarrow> bool" where
  "hits cx cy lw r =
     (cx < rx r + rw r + pad \<and> cx + lw + pad > rx r \<and> cy < ry r + rh r + pad \<and> cy + lh + pad > ry r)"

definition overlaps :: "real \<Rightarrow> real \<Rightarrow> real \<Rightarrow> LabelRect list \<Rightarrow> bool" where
  "overlaps cx cy lw placedRects = list_ex (hits cx cy lw) placedRects"

definition offsets :: "real \<Rightarrow> (real \<times> real) list" where
  "offsets lw =
     [(7, -8), (7, 6), (-lw - 5, -8), (-lw - 5, 6),
      (7, -8 - lh - pad), (7, 6 + lh + pad), (-lw - 5, -8 - lh - pad), (-lw - 5, 6 + lh + pad)]"

text \<open>The eight candidate offsets as the specification words them: the second four are the
  first four pushed one label-height further away.\<close>

definition spec_offsets :: "real \<Rightarrow> (real \<times> real) list" where
  "spec_offsets lw =
     [(7, -8), (7, 6), (-lw - 5, -8), (-lw - 5, 6),
      (7, -8 - lh), (7, 6 + lh), (-lw - 5, -8 - lh), (-lw - 5, 6 + lh)]"

text \<open>The loop over \<^verbatim>\<open>offsets\<close>, leaving at the first free candidate (\<^verbatim>\<open>break\<close>); \<open>None\<close>
  is \<^verbatim>\<open>resolved == false\<close>.\<close>

fun tryOffsets :: "real \<times> real \<Rightarrow> real \<Rightarrow> LabelRect list \<Rightarrow> (real \<times> real) list
    \<Rightarrow> (real \<times> real) option" where
  "tryOffsets pr lw placedRects [] = None"
| "tryOffsets pr lw placedRects ((ox, oy) # rest) =
     (let cx = fst pr + ox; cy = snd pr + oy
      in if \<not> overlaps cx cy lw placedRects then Some (cx, cy)
         else tryOffsets pr lw placedRects rest)"

text \<open>\<^verbatim>\<open>for (let dy = 0; dy < 200; dy += lh + pad)\<close>, leaving at the first free slot; \<open>None\<close>
  when the loop runs to its bound.\<close>

function scanDown :: "real \<times> real \<Rightarrow> real \<Rightarrow> LabelRect list \<Rightarrow> real \<Rightarrow> (real \<times> real) option" where
  "scanDown pr lw placedRects dy =
     (if dy < 200 then
        (let cx = fst pr + 7; cy = snd pr + dy
         in if \<not> overlaps cx cy lw placedRects then Some (cx, cy)
            else scanDown pr lw placedRects (dy + lh + pad))
      else None)"
  by pat_completeness auto
termination
proof (relation "measure (\<lambda>(pr, lw, placedRects, dy). nat \<lceil>200 - dy\<rceil>)")
  show "wf (measure (\<lambda>(pr, lw, placedRects, dy). nat \<lceil>200 - dy\<rceil>))"
    by simp
next
  fix pr :: "real \<times> real" and lw :: real and placedRects :: "LabelRect list" and dy x xa :: real
  assume "dy < 200"
  then have "\<lceil>200 - (dy + lh + pad)\<rceil> < \<lceil>200 - dy\<rceil>" and "0 < \<lceil>200 - dy\<rceil>"
    unfolding lh_def pad_def by linarith+
  then show "((pr, lw, placedRects, dy + lh + pad), pr, lw, placedRects, dy)
      \<in> measure (\<lambda>(pr, lw, placedRects, dy). nat \<lceil>200 - dy\<rceil>)"
    by simp
qed

declare scanDown.simps [simp del]

text \<open>One iteration of the outer loop: the position \<^verbatim>\<open>(bestX, bestY)\<close> of the label.\<close>

definition placeOne :: "Label \<Rightarrow> LabelRect list \<Rightarrow> real \<times> real" where
  "placeOne c placedRects =
     (let lw = labelWidth c
      in case tryOffsets (projected c) lw placedRects (offsets lw) of
           Some best \<Rightarrow> best
         | None \<Rightarrow>
            (case scanDown (projected c) lw placedRects 0 of
               Some best \<Rightarrow> best
             | None \<Rightarrow> (labelX c, labelY c)))"

fun placeLabels :: "Label list \<Rightarrow> LabelRect list \<Rightarrow> Label list \<times> LabelRect list" where
  "placeLabels [] placedRects = ([], placedRects)"
| "placeLabels (c # rest) placedRects =
     (let best = placeOne c placedRects;
          c' = c\<lparr>labelX := fst best, labelY := snd best\<rparr>;
          r = \<lparr>rx = fst best, ry = snd best, rw = labelWidth c, rh = lh\<rparr>;
          res = placeLabels rest (placedRects @ [r])
      in (c' # fst res, snd res))"

text \<open>The label entry pushed for a projected point: the default position is right-above.\<close>

definition make_label :: "jsstring \<Rightarrow> jsstring \<Rightarrow> real \<times> real \<Rightarrow> Label" where
  "make_label nm ctry pr =
     \<lparr>name = nm, country = ctry, projected = (fst pr, snd pr),
      labelX = fst pr + 7, labelY = snd pr - 8\<rparr>"

text \<open>
  The state \<^verbatim>\<open>selectedCity\<close>: a city and the pairs touching it. The field \<^verbatim>\<open>city\<close> holds a
  reference to a \<^verbatim>\<open>CityNode\<close> object. A reference is modelled by the identity of the object
  (\<open>sel_ref\<close>, a number that differs for any two objects, so every rebuild of the nodes
  gives new ones) together with the object's contents (\<open>sel_city\<close>).
\<close>

record Selection =
  sel_ref :: nat
  sel_city :: CityNode
  sel_pairs :: "CityPair list"

text \<open>
  The projection (d3's \<^verbatim>\<open>geoMercator\<close>) is a parameter: a function from \<open>[lng, lat]\<close> to a
  point or nothing.
\<close>

type_synonym projection = "real \<times> real \<Rightarrow> (real \<times> real) option"

definition twin_label :: "projection \<Rightarrow> CityNode \<Rightarrow> CityPair \<Rightarrow> Label option" where
  "twin_label proj selected p =
     (let isCity1 = (lng1 p = fst (coords selected) \<and> lat1 p = snd (coords selected));
          twinCoords = (if isCity1 then (lng2 p, lat2 p) else (lng1 p, lat1 p));
          twinName = (if isCity1 then city2 p else city1 p);
          twinCountry = (if isCity1 then or_empty (country2 p) else or_empty (country1 p))
      in map_option (make_label twinName twinCountry) (proj twinCoords))"

definition connected :: "projection \<Rightarrow> Selection \<Rightarrow> Label list" where
  "connected proj sel =
     (case proj (coords (sel_city sel)) of
        None \<Rightarrow> []
      | Some selfProj \<Rightarrow> [make_label (name (sel_city sel)) (country (sel_city sel)) selfProj])
     @ List.map_filter (twin_label proj (sel_city sel)) (sel_pairs sel)"

definition selectedConnectedCities :: "projection \<Rightarrow> Selection option \<Rightarrow> Label list" where
  "selectedConnectedCities proj selectedCity =
     (case selectedCity of
        None \<Rightarrow> []
      | Some sel \<Rightarrow> fst (placeLabels (connected proj sel) []))"

definition searchLabels :: "projection \<Rightarrow> bool \<Rightarrow> bool \<Rightarrow> CityNode list \<Rightarrow> Label list" where
  "searchLabels proj isFiltered hasSelection cs =
     (if \<not> isFiltered \<or> hasSelection then []
      else fst (placeLabels
             (List.map_filter
                (\<lambda>city. map_option (make_label (name city) (country city)) (proj (coords city))) cs)
             []))"

text \<open>The rectangle a finished label occupies, the rectangles of a whole pass, and the
  overlap test between two rectangles (the test of the loop, with the candidate's
  position, width and height taken from a rectangle).\<close>

definition placed_rect :: "Label \<Rightarrow> LabelRect list \<Rightarrow> LabelRect" where
  "placed_rect c placedRects =
     \<lparr>rx = fst (placeOne c placedRects), ry = snd (placeOne c placedRects),
      rw = labelWidth c, rh = lh\<rparr>"

definition label_rect :: "Label \<Rightarrow> LabelRect" where
  "label_rect c = \<lparr>rx = labelX c, ry = labelY c, rw = labelWidth c, rh = lh\<rparr>"

definition placedRects_of :: "Label list \<Rightarrow> LabelRect list" where
  "placedRects_of cs = snd (placeLabels cs [])"

definition rects_overlap :: "LabelRect \<Rightarrow> LabelRect \<Rightarrow> bool" where
  "rects_overlap a b = hits (rx a) (ry a) (rw a) b"

text \<open>The twenty positions a label is tried at: the eight candidates, then the slots of the
  downward scan.\<close>

definition candidate :: "Label \<Rightarrow> nat \<Rightarrow> real \<times> real" where
  "candidate c i =
     (fst (projected c) + fst (offsets (labelWidth c) ! i),
      snd (projected c) + snd (offsets (labelWidth c) ! i))"

definition scan_slot :: "Label \<Rightarrow> nat \<Rightarrow> real \<times> real" where
  "scan_slot c i = (fst (projected c) + 7, snd (projected c) + real i * (lh + pad))"

definition free_at :: "Label \<Rightarrow> LabelRect list \<Rightarrow> real \<times> real \<Rightarrow> bool" where
  "free_at c placedRects pos = (\<not> overlaps (fst pos) (snd pos) (labelWidth c) placedRects)"

definition some_position_free :: "Label \<Rightarrow> LabelRect list \<Rightarrow> bool" where
  "some_position_free c placedRects =
     ((\<exists>i < 8. free_at c placedRects (candidate c i))
      \<or> (\<exists>i < 12. free_at c placedRects (scan_slot c i)))"

text \<open>A label \<^verbatim>\<open>A\<close> anchored at the origin, the fifteen positions that copies of it
  occupy one after the other, and their rectangles (width \<open>1 * 5.5 + 14\<close>).\<close>

definition label_A :: Label where
  "label_A = make_label (ascii ''A'') (ascii ''X'') (0, 0)"

definition slots_A :: "(real \<times> real) list" where
  "slots_A =
     [(7, -8), (-24.5, -8), (7, -25), (7, 23), (-24.5, -25), (-24.5, 23),
      (7, 51), (7, 68), (7, 85), (7, 102), (7, 119), (7, 136), (7, 153), (7, 170), (7, 187)]"

text \<open>A selection whose city has fifteen self-loop pairs, and a projection that moves the
  coordinate \<open>[10, 10]\<close> to the origin: the pass then receives sixteen copies of the label.\<close>

definition selection_loops :: Selection where
  "selection_loops =
     \<lparr>sel_ref = 0,
      sel_city = \<lparr>name = ascii ''A'', country = ascii ''X'', coords = (10, 10), connections = 30\<rparr>,
      sel_pairs = replicate 15 pair_loop\<rparr>"

definition origin_projection :: projection where
  "origin_projection c = Some (fst c - 10, snd c - 10)"

definition rect_A :: "real \<times> real \<Rightarrow> LabelRect" where
  "rect_A pos = \<lparr>rx = fst pos, ry = snd pos, rw = 19.5, rh = 15\<rparr>"

definition rects_A :: "nat \<Rightarrow> LabelRect list" where
  "rects_A k = map rect_A (take k slots_A)"

section \<open>Interaction controller (lines 47-115 and 432-452)\<close>

text \<open>
  The React state and refs the handlers read and write. \<^verbatim>\<open>isDragging\<close>, \<^verbatim>\<open>panStart\<close> and
  \<^verbatim>\<open>panOrigin\<close> are refs, the other fields are state; every handler is a function from
  the state before the event to the state after it.
\<close>

record AppState =
  zoom :: real
  pan :: "real \<times> real"
  isPanning :: bool
  isDragging :: bool
  panStart :: "real \<times> real"
  panOrigin :: "real \<times> real"
  selectedCity :: "Selection option"

definition initialState :: AppState where
  "initialState =
     \<lparr>zoom = 1, pan = (0, 0), isPanning = False, isDragging = False,
      panStart = (0, 0), panOrigin = (0, 0), selectedCity = None\<rparr>"

definition handleWheel :: "real \<Rightarrow> AppState \<Rightarrow> AppState" where
  "handleWheel deltaY s =
     (let delta = (if deltaY > 0 then 0.85 else 1.18)
      in s\<lparr>zoom := min (max (zoom s * delta) 0.5) 20\<rparr>)"

definition handleMouseDown :: "int \<Rightarrow> real \<Rightarrow> real \<Rightarrow> AppState \<Rightarrow> AppState" where
  "handleMouseDown button clientX clientY s =
     (if button = 0 \<or> button = 1
      then s\<lparr>isPanning := True, isDragging := False,
             panStart := (clientX, clientY), panOrigin := pan s\<rparr>
      else s)"

text \<open>
  \<open>container\<close> is \<^verbatim>\<open>mapContainerRef.current\<close> with the width and height of its bounding
  rectangle, \<open>None\<close> when the ref is null. A rectangle of width or height zero gives a
  non-finite pan in JavaScript; the division of the reals gives zero there, and no
  statement below reads the pan after such a move.
\<close>

definition handleMouseMove :: "real \<Rightarrow> real \<Rightarrow> (real \<times> real) option \<Rightarrow> AppState \<Rightarrow> AppState" where
  "handleMouseMove clientX clientY container s =
     (if \<not> isPanning s then s
      else let dx = clientX - fst (panStart s);
               dy = clientY - snd (panStart s)
           in if \<not> isDragging s \<and> \<bar>dx\<bar> + \<bar>dy\<bar> < 3 then s
              else (case container of
                      None \<Rightarrow> s\<lparr>isDragging := True\<rparr>
                    | Some (width, height) \<Rightarrow>
                        (let scaleX = 960 / width;
                             scaleY = 500 / height
                         in s\<lparr>isDragging := True,
                              pan := (fst (panOrigin s) + dx * scaleX,
                                      snd (panOrigin s) + dy * scaleY)\<rparr>)))"

text \<open>\<^verbatim>\<open>handleMouseUp\<close> ends the panning and schedules \<^verbatim>\<open>setTimeout(..., 0)\<close>; the timer's
  callback is the handler \<open>dragResetTimer\<close>, which runs in a later turn of the event loop.\<close>

definition handleMouseUp :: "AppState \<Rightarrow> AppState" where
  "handleMouseUp s = s\<lparr>isPanning := False\<rparr>"

definition dragResetTimer :: "AppState \<Rightarrow> AppState" where
  "dragResetTimer s = s\<lparr>isDragging := False\<rparr>"

definition resetView :: "AppState \<Rightarrow> AppState" where
  "resetView s = s\<lparr>zoom := 1, pan := (0, 0)\<rparr>"

definition zoomIn :: "AppState \<Rightarrow> AppState" where
  "zoomIn s = s\<lparr>zoom := min (zoom s * 1.4) 20\<rparr>"

definition zoomOut :: "AppState \<Rightarrow> AppState" where
  "zoomOut s = s\<lparr>zoom := max (zoom s * 0.7) 0.5\<rparr>"

text \<open>
  The argument \<^verbatim>\<open>city\<close> of \<^verbatim>\<open>handleCityClick\<close> is a reference too: \<open>ref\<close> is the identity of
  the clicked node object and \<open>city\<close> its contents. \<^verbatim>\<open>selectedCity?.city === city\<close> compares
  the two identities, not the contents.
\<close>

definition handleCityClick :: "CityPair list \<Rightarrow> nat \<Rightarrow> CityNode \<Rightarrow> AppState \<Rightarrow> AppState" where
  "handleCityClick filtered ref city s =
     (if isDragging s then s
      else if map_option sel_ref (selectedCity s) = Some ref then s\<lparr>selectedCity := None\<rparr>
      else s\<lparr>selectedCity :=
               Some \<lparr>sel_ref = ref, sel_city = city, sel_pairs = findPairsForCity filtered city\<rparr>\<rparr>)"

definition handleMapClick :: "AppState \<Rightarrow> AppState" where
  "handleMapClick s =
     (if isDragging s then s
      else if selectedCity s \<noteq> None then s\<lparr>selectedCity := None\<rparr> else s)"

datatype event =
    Wheel real
  | MouseDown int real real
  | MouseMove real real "(real \<times> real) option"
  | MouseUp
  | DragResetTimer
  | ResetView
  | ZoomIn
  | ZoomOut
  | CityClick nat CityNode
  | MapClick

fun step :: "CityPair list \<Rightarrow> AppState \<Rightarrow> event \<Rightarrow> AppState" where
  "step filtered s (Wheel deltaY) = handleWheel deltaY s"
| "step filtered s (MouseDown button clientX clientY) = handleMouseDown button clientX clientY s"
| "step filtered s (MouseMove clientX clientY container) = handleMouseMove clientX clientY container s"
| "step filtered s MouseUp = handleMouseUp s"
| "step filtered s DragResetTimer = dragResetTimer s"
| "step filtered s ResetView = resetView s"
| "step filtered s ZoomIn = zoomIn s"
| "step filtered s ZoomOut = zoomOut s"
| "step filtered s (CityClick ref city) = handleCityClick filtered ref city s"
| "step filtered s MapClick = handleMapClick s"

definition run :: "CityPair list \<Rightarrow> event list \<Rightarrow> AppState \<Rightarrow> AppState" where
  "run filtered evs s = foldl (step filtered) s evs"

text \<open>A gesture over a marker: pointer-down at \<open>start\<close>, the moves, pointer-up, and the click
  the browser dispatches right after the pointer-up, before the timer runs.\<close>

definition moves_events :: "(real \<times> real \<times> (real \<times> real) option) list \<Rightarrow> event list" where
  "moves_events moves = map (\<lambda>(cx, cy, container). MouseMove cx cy container) moves"

definition gesture :: "int \<Rightarrow> real \<times> real \<Rightarrow> (real \<times> real \<times> (real \<times> real) option) list
    \<Rightarrow> nat \<Rightarrow> CityNode \<Rightarrow> event list" where
  "gesture button start moves ref city =
     MouseDown button (fst start) (snd start) # moves_events moves @ [MouseUp, CityClick ref city]"

text \<open>The selection after a toggle on the node object \<open>ref\<close> with contents \<open>city\<close>: cleared
  when that very object is selected, set to it otherwise.\<close>

definition toggled :: "CityPair list \<Rightarrow> nat \<Rightarrow> CityNode \<Rightarrow> Selection option \<Rightarrow> Selection option" where
  "toggled filtered ref city sel =
     (if map_option sel_ref sel = Some ref then None
      else Some \<lparr>sel_ref = ref, sel_city = city, sel_pairs = findPairsForCity filtered city\<rparr>)"

text \<open>The displacement of a move in screen pixels, which the handler compares with 3, and
  the displacement in the units of the 960 by 500 canvas, which the specification names.\<close>

definition pixel_displacement :: "real \<times> real \<Rightarrow> real \<times> real \<Rightarrow> real" where
  "pixel_displacement start pos = \<bar>fst pos - fst start\<bar> + \<bar>snd pos - snd start\<bar>"

definition scaled_displacement :: "real \<times> real \<Rightarrow> real \<times> real \<Rightarrow> real \<times> real \<Rightarrow> real" where
  "scaled_displacement dims start pos =
     \<bar>(fst pos - fst start) * (960 / fst dims)\<bar> + \<bar>(snd pos - snd start) * (500 / snd dims)\<bar>"

definition node_A :: CityNode where
  "node_A = \<lparr>name = ascii ''A'', country = ascii ''X'', coords = (10, 10), connections = 2\<rparr>"

text \<open>A state in which the node object 7, with these contents, is selected.\<close>

definition state_selected_A :: AppState where
  "state_selected_A =
     initialState\<lparr>selectedCity := Some \<lparr>sel_ref = 7, sel_city = node_A, sel_pairs = []\<rparr>\<rparr>"

section \<open>Loading the dataset (lines 118-131)\<close>

text \<open>
  \<^verbatim>\<open>Papa.parse\<close> with \<^verbatim>\<open>header\<close> and \<^verbatim>\<open>dynamicTyping\<close> yields one object per row whose
  fields are JavaScript values: a number for a numeric field, a string for any other
  non-empty field, \<^verbatim>\<open>null\<close> for an empty field, nothing for a field the row lacks. The
  type parameter \<^verbatim>\<open>CityPair\<close> is an unchecked cast, so the rows are modelled before it.
\<close>

datatype jsval =
    JUndefined
  | JNull
  | JBool bool
  | JNumber real
  | JNaN
  | JInfinity bool
  | JString jsstring

record RawRow =
  raw_city1 :: jsval
  raw_country1 :: jsval
  raw_lat1 :: jsval
  raw_lng1 :: jsval
  raw_city2 :: jsval
  raw_country2 :: jsval
  raw_lat2 :: jsval
  raw_lng2 :: jsval

text \<open>JavaScript's \<^verbatim>\<open>ToBoolean\<close> and its operator \<^verbatim>\<open>&&\<close>.\<close>

fun truthy :: "jsval \<Rightarrow> bool" where
  "truthy JUndefined = False"
| "truthy JNull = False"
| "truthy (JBool b) = b"
| "truthy (JNumber r) = (r \<noteq> 0)"
| "truthy JNaN = False"
| "truthy (JInfinity negative) = True"
| "truthy (JString s) = (s \<noteq> [])"

definition js_and :: "jsval \<Rightarrow> jsval \<Rightarrow> jsval" where
  "js_and a b = (if truthy a then b else a)"

definition loadPairs :: "RawRow list \<Rightarrow> RawRow list" where
  "loadPairs data =
     filter (\<lambda>p. truthy (js_and (js_and (js_and (raw_lat1 p) (raw_lng1 p)) (raw_lat2 p)) (raw_lng2 p)))
       data"

text \<open>A row with latitude zero (Quito lies close to the equator), and a row whose first
  latitude is the text \<^verbatim>\<open>N/A\<close>.\<close>

definition row_equator :: RawRow where
  "row_equator =
     \<lparr>raw_city1 = JString (ascii ''Quito''), raw_country1 = JString (ascii ''Ecuador''),
      raw_lat1 = JNumber 0, raw_lng1 = JNumber (-78.5),
      raw_city2 = JString (ascii ''Madrid''), raw_country2 = JString (ascii ''Spain''),
      raw_lat2 = JNumber 40.4, raw_lng2 = JNumber (-3.7)\<rparr>"

definition row_text_latitude :: RawRow where
  "row_text_latitude =
     \<lparr>raw_city1 = JString (ascii ''Quito''), raw_country1 = JString (ascii ''Ecuador''),
      raw_lat1 = JString (ascii ''N/A''), raw_lng1 = JNumber (-78.5),
      raw_city2 = JString (ascii ''Madrid''), raw_country2 = JString (ascii ''Spain''),
      raw_lat2 = JNumber 40.4, raw_lng2 = JNumber (-3.7)\<rparr>"

section \<open>Properties of the search filter\<close>

text \<open>
  C8. Filtering with an empty debounced search term returns exactly the unfiltered pair
  list: the filter is the identity when the term is empty.
\<close>

theorem filteredPairs_empty_term: "filteredPairs toLowerCase ps [] = ps"
  by (simp add: filteredPairs_def)

lemma or_empty_id: "or_empty s = s"
  by (simp add: or_empty_def)

lemma starts_with_iff: "starts_with s t \<longleftrightarrow> (\<exists>post. s = t @ post)"
  by (induction s t rule: starts_with.induct) auto

lemma includes_str_iff: "includes_str s t \<longleftrightarrow> (\<exists>pre post. s = pre @ t @ post)"
proof (induction s)
  case Nil
  then show ?case by auto
next
  case (Cons a s)
  have "(\<exists>pre post. a # s = pre @ t @ post)
      \<longleftrightarrow> (\<exists>post. a # s = t @ post) \<or> (\<exists>pre post. s = pre @ t @ post)"
  proof
    assume "\<exists>pre post. a # s = pre @ t @ post"
    then obtain pre post where e: "a # s = pre @ t @ post" by blast
    show "(\<exists>post. a # s = t @ post) \<or> (\<exists>pre post. s = pre @ t @ post)"
    proof (cases pre)
      case Nil
      with e show ?thesis by auto
    next
      case (Cons b pre')
      with e have "s = pre' @ t @ post" by simp
      then show ?thesis by blast
    qed
  next
    assume "(\<exists>post. a # s = t @ post) \<or> (\<exists>pre post. s = pre @ t @ post)"
    then show "\<exists>pre post. a # s = pre @ t @ post"
    proof
      assume "\<exists>post. a # s = t @ post"
      then obtain post where "a # s = [] @ t @ post" by auto
      then show ?thesis by blast
    next
      assume "\<exists>pre post. s = pre @ t @ post"
      then obtain pre post where "a # s = (a # pre) @ t @ post" by auto
      then show ?thesis by blast
    qed
  qed
  with Cons show ?case by (simp add: starts_with_iff)
qed

lemma includes_map:
  "includes_str (map g f) (map g t) \<longleftrightarrow> (\<exists>pre mid post. f = pre @ mid @ post \<and> map g mid = map g t)"
proof
  assume "includes_str (map g f) (map g t)"
  then obtain pre post where "map g f = pre @ map g t @ post"
    by (auto simp: includes_str_iff)
  then obtain us vs where f: "f = us @ vs" and "pre = map g us"
    and "map g t @ post = map g vs"
    by (auto simp: map_eq_append_conv)
  then obtain mid ws where "vs = mid @ ws" and "map g mid = map g t"
    by (auto simp: append_eq_map_conv)
  with f show "\<exists>pre mid post. f = pre @ mid @ post \<and> map g mid = map g t" by blast
next
  assume "\<exists>pre mid post. f = pre @ mid @ post \<and> map g mid = map g t"
  then obtain pre mid post where "f = pre @ mid @ post" and "map g mid = map g t" by blast
  then have "map g f = map g pre @ map g t @ map g post" by simp
  then show "includes_str (map g f) (map g t)"
    unfolding includes_str_iff by blast
qed

lemma includes_unit_wise:
  assumes "unit_wise toLowerCase g U" and "set f \<subseteq> U" and "set t \<subseteq> U"
  shows "includes_str (toLowerCase f) (toLowerCase t) \<longleftrightarrow> ci_substring toLowerCase t f"
proof -
  have low: "\<And>s. set s \<subseteq> U \<Longrightarrow> toLowerCase s = map g s"
    using assms(1) by (simp add: unit_wise_def)
  have "includes_str (toLowerCase f) (toLowerCase t)
      \<longleftrightarrow> (\<exists>pre mid post. f = pre @ mid @ post \<and> map g mid = map g t)"
    by (simp only: low [OF assms(2)] low [OF assms(3)] includes_map)
  also have "\<dots> \<longleftrightarrow> (\<exists>pre mid post. f = pre @ mid @ post \<and> toLowerCase mid = toLowerCase t)"
  proof -
    have "map g mid = map g t \<longleftrightarrow> toLowerCase mid = toLowerCase t"
      if "f = pre @ mid @ post" for pre mid post
    proof -
      from that assms(2) have "set mid \<subseteq> U" by auto
      then show ?thesis by (simp only: low low [OF assms(3)])
    qed
    then show ?thesis by blast
  qed
  finally show ?thesis by (simp add: ci_substring_def same_ignoring_case_def)
qed

lemma filteredPairs_lowered:
  "t \<noteq> [] \<Longrightarrow> filteredPairs toLowerCase ps t = filter (lowered_match toLowerCase t) ps"
  by (simp add: filteredPairs_def Let_def or_empty_id lowered_match_def [abs_def])

lemma lowered_match_unit_wise:
  assumes "unit_wise toLowerCase g U" and "set t \<subseteq> U" and "fields_within U p"
  shows "lowered_match toLowerCase t p \<longleftrightarrow> matches_term toLowerCase t p"
  using assms(3)
  by (simp add: lowered_match_def matches_term_def fields_within_def
      includes_unit_wise [OF assms(1) _ assms(2)])

lemma lower_from_units:
  "set s \<subseteq> {n. n < 256} \<Longrightarrow> lower_from b s = map lower_unit s"
  by (induction s arbitrary: b) auto

lemma greek_unit_wise: "unit_wise toLowerCase_greek lower_unit {n. n < 256}"
  by (simp add: unit_wise_def toLowerCase_greek_def lower_from_units)

text \<open>
  C9, as the code has it. For a non-empty search term a pair is in the filtered list
  exactly when it is a loaded pair and the lower-cased term occurs as a contiguous block
  in its lower-cased \<^verbatim>\<open>city1\<close>, \<^verbatim>\<open>city2\<close>, \<^verbatim>\<open>country1\<close> or \<^verbatim>\<open>country2\<close>; the filtered list
  keeps the order of the loaded list, and a term that matches no pair in this sense
  gives the empty list. Where \<^verbatim>\<open>toLowerCase\<close> acts code unit by code unit on the strings
  involved (the term and the four fields of every pair lie over a set of code units on
  which it does, as ASCII and Latin-1), this is exactly: the term is a case-insensitive
  substring of one of the four fields.
\<close>

theorem filter_lowered_substring:
  assumes "t \<noteq> []"
  shows "filteredPairs toLowerCase ps t = filter (lowered_match toLowerCase t) ps
       \<and> (p \<in> set (filteredPairs toLowerCase ps t) \<longleftrightarrow> p \<in> set ps \<and> lowered_match toLowerCase t p)
       \<and> ((\<forall>q \<in> set ps. \<not> lowered_match toLowerCase t q) \<longrightarrow> filteredPairs toLowerCase ps t = [])
       \<and> (unit_wise toLowerCase g U \<and> set t \<subseteq> U \<and> (\<forall>q \<in> set ps. fields_within U q) \<longrightarrow>
            filteredPairs toLowerCase ps t = filter (matches_term toLowerCase t) ps)"
proof -
  have e: "filteredPairs toLowerCase ps t = filter (lowered_match toLowerCase t) ps"
    by (rule filteredPairs_lowered [OF assms])
  have u: "filter (lowered_match toLowerCase t) ps = filter (matches_term toLowerCase t) ps"
    if "unit_wise toLowerCase g U" and "set t \<subseteq> U" and "\<forall>q \<in> set ps. fields_within U q"
    using that by (intro filter_cong refl lowered_match_unit_wise) auto
  from e u show ?thesis by (auto simp: filter_empty_conv)
qed

theorem filter_lowered_substring_witness:
  "ascii ''X'' \<noteq> []
   \<and> unit_wise toLowerCase_greek lower_unit {n. n < 256}
   \<and> set (ascii ''X'') \<subseteq> {n. n < 256}
   \<and> fields_within {n. n < 256} pair_A_B \<and> fields_within {n. n < 256} pair_A2_C
   \<and> filteredPairs toLowerCase_greek [pair_A_B, pair_A2_C] (ascii ''X'')
       = filter (matches_term toLowerCase_greek (ascii ''X'')) [pair_A_B, pair_A2_C]
   \<and> filteredPairs toLowerCase_greek [pair_A_B, pair_A2_C] (ascii ''X'') = [pair_A_B, pair_A2_C]
   \<and> filteredPairs toLowerCase_greek [pair_A_B, pair_A2_C] (ascii ''y'') = [pair_A_B]
   \<and> filteredPairs toLowerCase_greek [pair_A_B, pair_A2_C] (ascii ''q'') = []"
proof -
  have n: "ascii ''X'' \<noteq> []" by simp
  have t: "set (ascii ''X'') \<subseteq> {n. n < 256}" by simp
  have f: "fields_within {n. n < 256} pair_A_B" "fields_within {n. n < 256} pair_A2_C"
    by (simp_all add: fields_within_def pair_A_B_def pair_A2_C_def)
  then have fs: "\<forall>q \<in> set [pair_A_B, pair_A2_C]. fields_within {n. n < 256} q" by simp
  have a: "filteredPairs toLowerCase_greek [pair_A_B, pair_A2_C] (ascii ''X'') = [pair_A_B, pair_A2_C]"
    by code_simp
  have b: "filteredPairs toLowerCase_greek [pair_A_B, pair_A2_C] (ascii ''y'') = [pair_A_B]"
    by code_simp
  have c: "filteredPairs toLowerCase_greek [pair_A_B, pair_A2_C] (ascii ''q'') = []"
    by code_simp
  have m: "filteredPairs toLowerCase_greek [pair_A_B, pair_A2_C] (ascii ''X'')
      = filter (matches_term toLowerCase_greek (ascii ''X'')) [pair_A_B, pair_A2_C]"
    using filter_lowered_substring [OF n, of toLowerCase_greek "[pair_A_B, pair_A2_C]" _
        lower_unit "{n. n < 256}"] greek_unit_wise t fs
    by blast
  from n greek_unit_wise t f m a b c show ?thesis by blast
qed

text \<open>
  C9, as the specification states it, fails. The first city of the pair is written with
  the Greek capitals alpha and sigma, and the term is the capital sigma: the field
  contains the term as it stands, so the term is a case-insensitive substring of it. The
  field lower-cases to alpha and the final small sigma, the term to the medial small
  sigma, and the filter drops the pair.
\<close>

theorem final_sigma_term_not_found:
  "([931] :: jsstring) \<noteq> []
   \<and> includes_str (city1 pair_sigma) [931]
   \<and> ci_substring toLowerCase_greek [931] (city1 pair_sigma)
   \<and> matches_term toLowerCase_greek [931] pair_sigma
   \<and> toLowerCase_greek (city1 pair_sigma) = [945, 962]
   \<and> toLowerCase_greek [931] = [963]
   \<and> filteredPairs toLowerCase_greek [pair_sigma] [931] = []"
proof -
  have s: "city1 pair_sigma = [913] @ [931] @ []" by (simp add: pair_sigma_def)
  have ci: "ci_substring toLowerCase_greek [931] (city1 pair_sigma)"
    unfolding ci_substring_def same_ignoring_case_def using s by blast
  have inc: "includes_str (city1 pair_sigma) [931]"
    by (simp add: pair_sigma_def)
  have l1: "toLowerCase_greek (city1 pair_sigma) = [945, 962]"
    by (simp add: pair_sigma_def toLowerCase_greek_def lower_unit_def cased_def)
  have l2: "toLowerCase_greek [931] = [963]"
    by (simp add: toLowerCase_greek_def lower_unit_def)
  have f: "filteredPairs toLowerCase_greek [pair_sigma] [931] = []"
    by code_simp
  from ci inc l1 l2 f show ?thesis by (simp add: matches_term_def)
qed

section \<open>Properties of the node builder\<close>



lemma keys_increment: "map fst (increment k m) = map fst m"
  by (induction m) (auto simp: increment_def)

lemma has_increment: "has (increment k m) k' = has m k'"
proof -
  have "set (map fst (increment k m)) = set (map fst m)"
    by (simp only: keys_increment)
  then show ?thesis by (simp add: has_def)
qed

lemma keys_set_if_absent:
  "map fst (set_if_absent k n m) = (if has m k then map fst m else map fst m @ [k])"
  by (simp add: set_if_absent_def)

lemma has_set_if_absent: "has (set_if_absent k n m) k' = (k' = k \<or> has m k')"
  by (auto simp: set_if_absent_def has_def)

lemma distinct_set_if_absent:
  "distinct (map fst m) \<Longrightarrow> distinct (map fst (set_if_absent k n m))"
  by (auto simp: set_if_absent_def has_def)

lemma conn_sum_increment:
  "conn_sum (increment k m) = conn_sum m + length (filter (\<lambda>e. fst e = k) m)"
  by (induction m) (auto simp: increment_def conn_sum_def)

lemma count_key_distinct:
  "distinct (map fst m) \<Longrightarrow> has m k \<Longrightarrow> length (filter (\<lambda>e. fst e = k) m) = 1"
proof (induction m)
  case Nil
  then show ?case by (simp add: has_def)
next
  case (Cons e m)
  show ?case
  proof (cases "fst e = k")
    case True
    with Cons.prems have "\<forall>e' \<in> set m. fst e' \<noteq> k" by (force simp: image_iff)
    then have "filter (\<lambda>e. fst e = k) m = []" by (simp add: filter_empty_conv)
    with True show ?thesis by simp
  next
    case False
    with Cons.prems have "has m k" by (auto simp: has_def)
    with Cons False show ?thesis by simp
  qed
qed

lemma conn_sum_set_if_absent:
  "connections n = 0 \<Longrightarrow> conn_sum (set_if_absent k n m) = conn_sum m"
  by (simp add: set_if_absent_def conn_sum_def)

lemma distinct_add_pair:
  "distinct (map fst m) \<Longrightarrow> distinct (map fst (add_pair m p))"
  by (simp add: add_pair_def Let_def keys_increment distinct_set_if_absent)

lemma conn_sum_add_pair:
  assumes "distinct (map fst m)"
  shows "conn_sum (add_pair m p) = conn_sum m + 2"
proof -
  let ?n1 = "\<lparr>name = city1 p, country = or_empty (country1 p),
               coords = (lng1 p, lat1 p), connections = 0\<rparr>"
  let ?n2 = "\<lparr>name = city2 p, country = or_empty (country2 p),
               coords = (lng2 p, lat2 p), connections = 0\<rparr>"
  let ?m1 = "set_if_absent (key1 p) ?n1 m"
  let ?m2 = "increment (key1 p) ?m1"
  let ?m3 = "set_if_absent (key2 p) ?n2 ?m2"
  have d1: "distinct (map fst ?m1)" using assms by (rule distinct_set_if_absent)
  have h1: "has ?m1 (key1 p)" by (simp add: has_set_if_absent)
  have s2: "conn_sum ?m2 = conn_sum m + 1"
    by (simp add: conn_sum_increment count_key_distinct [OF d1 h1] conn_sum_set_if_absent)
  have d2: "distinct (map fst ?m2)" using d1 by (simp add: keys_increment)
  have d3: "distinct (map fst ?m3)" using d2 by (rule distinct_set_if_absent)
  have h3: "has ?m3 (key2 p)" by (simp add: has_set_if_absent)
  have "conn_sum (increment (key2 p) ?m3) = conn_sum ?m2 + 1"
    by (simp add: conn_sum_increment count_key_distinct [OF d3 h3] conn_sum_set_if_absent)
  with s2 show ?thesis by (simp add: add_pair_def Let_def)
qed

lemma cityMap_snoc: "cityMap (ps @ [p]) = add_pair (cityMap ps) p"
  by (simp add: cityMap_def)

lemma distinct_cityMap: "distinct (map fst (cityMap ps))"
proof (induction ps rule: rev_induct)
  case Nil
  then show ?case by (simp add: cityMap_def)
next
  case (snoc p ps)
  then show ?case by (simp add: cityMap_snoc distinct_add_pair)
qed

lemma conn_sum_cityMap: "conn_sum (cityMap ps) = 2 * length ps"
proof (induction ps rule: rev_induct)
  case Nil
  then show ?case by (simp add: cityMap_def conn_sum_def)
next
  case (snoc p ps)
  then show ?case by (simp add: cityMap_snoc conn_sum_add_pair distinct_cityMap)
qed







lemma has_map_of: "has m k = (map_of m k \<noteq> None)"
  by (simp add: has_def map_of_eq_None_iff)

lemma map_of_increment:
  "map_of (increment k m) k' =
     (if k' = k then map_option (\<lambda>n. n\<lparr>connections := connections n + 1\<rparr>) (map_of m k)
      else map_of m k')"
  by (induction m) (auto simp: increment_def)

lemma map_of_set_if_absent:
  "map_of (set_if_absent k n m) k' =
     (if k' = k \<and> \<not> has m k then Some n else map_of m k')"
  by (auto simp: set_if_absent_def has_map_of map_add_def split: option.splits)


lemma conn_at_add_pair:
  "conn_at (add_pair m p) k =
     conn_at m k + (if key1 p = k then 1 else 0) + (if key2 p = k then 1 else 0)"
  by (auto simp: add_pair_def Let_def conn_at_def map_of_increment map_of_set_if_absent
        has_map_of split: option.splits)

lemma has_add_pair: "has (add_pair m p) k = (k = key1 p \<or> k = key2 p \<or> has m k)"
  by (auto simp: add_pair_def Let_def has_increment has_set_if_absent)

lemma conn_at_cityMap: "conn_at (cityMap ps) k = endpoint_count k ps"
proof (induction ps rule: rev_induct)
  case Nil
  then show ?case by (simp add: cityMap_def conn_at_def endpoint_count_def)
next
  case (snoc p ps)
  then show ?case by (simp add: cityMap_snoc conn_at_add_pair endpoint_count_def)
qed

lemma has_cityMap: "has (cityMap ps) k = (0 < endpoint_count k ps)"
proof (induction ps rule: rev_induct)
  case Nil
  then show ?case by (simp add: cityMap_def has_def endpoint_count_def)
next
  case (snoc p ps)
  then show ?case by (auto simp: cityMap_snoc has_add_pair endpoint_count_def)
qed

lemma coords_increment:
  "(k', n') \<in> set (increment k m) \<Longrightarrow> \<exists>n. (k', n) \<in> set m \<and> coords n' = coords n"
  by (auto simp: increment_def split: if_splits)

lemma coords_add_pair:
  assumes "\<forall>(k, n) \<in> set m. node_ok k n"
  shows "\<forall>(k, n) \<in> set (add_pair m p). node_ok k n"
proof -
  have step: "\<And>k nd m'. \<forall>(k, n) \<in> set m'. node_ok k n \<Longrightarrow> node_ok k nd \<Longrightarrow>
      \<forall>(k', n') \<in> set (increment k (set_if_absent k nd m')). node_ok k' n'"
  proof -
    fix k nd m'
    assume a: "\<forall>(k, n) \<in> set m'. node_ok k n" and b: "node_ok k nd"
    have c: "\<forall>(k', n') \<in> set (set_if_absent k nd m'). node_ok k' n'"
      using a b by (auto simp: set_if_absent_def)
    show "\<forall>(k', n') \<in> set (increment k (set_if_absent k nd m')). node_ok k' n'"
    proof (clarify)
      fix k' n' assume "(k', n') \<in> set (increment k (set_if_absent k nd m'))"
      then obtain n where "(k', n) \<in> set (set_if_absent k nd m')" "coords n' = coords n"
        using coords_increment by blast
      with c show "node_ok k' n'" by (auto simp: node_ok_def)
    qed
  qed
  have n1: "node_ok (key1 p) \<lparr>name = city1 p, country = or_empty (country1 p),
               coords = (lng1 p, lat1 p), connections = 0\<rparr>"
    by (simp add: node_ok_def key1_def)
  have n2: "node_ok (key2 p) \<lparr>name = city2 p, country = or_empty (country2 p),
               coords = (lng2 p, lat2 p), connections = 0\<rparr>"
    by (simp add: node_ok_def key2_def)
  show ?thesis
    unfolding add_pair_def Let_def
    by (rule step [OF step [OF assms n1] n2])
qed

lemma coords_cityMap: "\<forall>(k, n) \<in> set (cityMap ps). node_ok k n"
proof (induction ps rule: rev_induct)
  case Nil
  then show ?case by (simp add: cityMap_def)
next
  case (snoc p ps)
  then show ?case unfolding cityMap_snoc by (rule coords_add_pair)
qed

lemma endpoint_count_split:
  "endpoint_count (b, a) ps =
     length (filter (touches (a, b)) ps) + length (filter (self_loop_at (a, b)) ps)"
  by (induction ps) (auto simp: endpoint_count_def touches_def self_loop_at_def key1_def key2_def)

lemma findPairsForCity_touches:
  "findPairsForCity ps n = filter (touches (coords n)) ps"
  by (cases "coords n") (auto simp: findPairsForCity_def touches_def intro: filter_cong)

lemma node_connections:
  assumes "n \<in> set (cities ps)"
  shows "connections n = endpoint_count (snd (coords n), fst (coords n)) ps"
proof -
  from assms obtain k where kn: "(k, n) \<in> set (cityMap ps)"
    by (auto simp: cities_def)
  with coords_cityMap have ok: "node_ok k n" by blast
  from kn distinct_cityMap have "map_of (cityMap ps) k = Some n" by simp
  then have "conn_at (cityMap ps) k = connections n" by (simp add: conn_at_def)
  with ok show ?thesis by (simp add: conn_at_cityMap node_ok_def)
qed



lemma endpoint_count_mset:
  assumes "mset ps = mset ps'"
  shows "endpoint_count k ps = endpoint_count k ps'"
proof -
  have "\<And>P. length (filter P ps) = length (filter P ps')"
  proof -
    fix P :: "CityPair \<Rightarrow> bool"
    have "mset (filter P ps) = mset (filter P ps')"
      using assms by (simp only: mset_filter)
    then show "length (filter P ps) = length (filter P ps')"
      by (rule mset_eq_length)
  qed
  then show ?thesis by (simp add: endpoint_count_def)
qed

lemma cities_image:
  "(\<lambda>n. (coords n, connections n)) ` set (cities ps) =
     (\<lambda>k. ((snd k, fst k), endpoint_count k ps)) ` {k. 0 < endpoint_count k ps}"
proof (rule set_eqI, rule iffI)
  fix v assume "v \<in> (\<lambda>n. (coords n, connections n)) ` set (cities ps)"
  then obtain n where n: "n \<in> set (cities ps)" and v: "v = (coords n, connections n)"
    by blast
  from n obtain k where kn: "(k, n) \<in> set (cityMap ps)" by (auto simp: cities_def)
  then have "has (cityMap ps) k" by (force simp: has_def)
  then have pos: "0 < endpoint_count k ps" by (simp add: has_cityMap)
  from kn coords_cityMap have ok: "node_ok k n" by blast
  from kn distinct_cityMap have "map_of (cityMap ps) k = Some n" by simp
  then have "conn_at (cityMap ps) k = connections n" by (simp add: conn_at_def)
  then have "connections n = endpoint_count k ps" by (simp add: conn_at_cityMap)
  with ok v pos show "v \<in> (\<lambda>k. ((snd k, fst k), endpoint_count k ps)) ` {k. 0 < endpoint_count k ps}"
    by (auto simp: node_ok_def)
next
  fix v assume "v \<in> (\<lambda>k. ((snd k, fst k), endpoint_count k ps)) ` {k. 0 < endpoint_count k ps}"
  then obtain k where pos: "0 < endpoint_count k ps" and v: "v = ((snd k, fst k), endpoint_count k ps)"
    by blast
  from pos have "has (cityMap ps) k" by (simp add: has_cityMap)
  then obtain n where kn: "(k, n) \<in> set (cityMap ps)" by (auto simp: has_def)
  with coords_cityMap have ok: "node_ok k n" by blast
  from kn distinct_cityMap have "map_of (cityMap ps) k = Some n" by simp
  then have "conn_at (cityMap ps) k = connections n" by (simp add: conn_at_def)
  then have c: "connections n = endpoint_count k ps" by (simp add: conn_at_cityMap)
  from kn have "n \<in> set (cities ps)" by (force simp: cities_def)
  with ok c v show "v \<in> (\<lambda>n. (coords n, connections n)) ` set (cities ps)"
    by (force simp: node_ok_def image_iff)
qed

lemma keys_cityMap: "set (map fst (cityMap ps)) = {k. 0 < endpoint_count k ps}"
  using has_cityMap [of ps] by (auto simp: has_def)

lemma length_cities: "length (cities ps) = card {k. 0 < endpoint_count k ps}"
proof -
  have "length (cities ps) = length (map fst (cityMap ps))" by (simp add: cities_def)
  also have "\<dots> = card (set (map fst (cityMap ps)))"
    using distinct_cityMap by (simp only: distinct_card)
  finally show ?thesis by (simp only: keys_cityMap)
qed

lemmas build_defs = cityMap_def cities_def add_pair_def set_if_absent_def has_def
  increment_def key1_def key2_def or_empty_def


text \<open>
  C2. For every filtered pair list the connection counts of the nodes built from it sum to
  twice the number of pairs. Adding a pair whose two endpoints have the same coordinate
  key raises the count of that one key by two and leaves every other key's count as it
  was.
\<close>

theorem connection_sum_twice_pairs:
  "sum_list (map connections (cities filtered)) = 2 * length filtered
   \<and> (key1 p = key2 p \<longrightarrow>
        conn_at (add_pair m p) (key1 p) = conn_at m (key1 p) + 2
        \<and> (\<forall>k. k \<noteq> key1 p \<longrightarrow> conn_at (add_pair m p) k = conn_at m k))"
  using conn_sum_cityMap [of filtered]
  by (simp add: cities_def conn_sum_def comp_def conn_at_add_pair)

theorem connection_sum_twice_pairs_witness:
  "key1 pair_loop = key2 pair_loop
   \<and> sum_list (map connections (cities [pair_loop])) = 2 * length [pair_loop]
   \<and> conn_at (add_pair [] pair_loop) (key1 pair_loop) = conn_at [] (key1 pair_loop) + 2
   \<and> conn_at [] (key1 pair_loop) = 0
   \<and> conn_at (add_pair [] pair_loop) (20, 20) = conn_at [] (20, 20)"
proof -
  have k: "key1 pair_loop = key2 pair_loop"
    by (simp add: key1_def key2_def pair_loop_def)
  have n: "(20, 20) \<noteq> key1 pair_loop"
    by (simp add: key1_def pair_loop_def)
  have z: "conn_at [] (key1 pair_loop) = 0"
    by (simp add: conn_at_def)
  from connection_sum_twice_pairs [of "[pair_loop]" pair_loop "[]"] k n z show ?thesis
    by simp
qed

text \<open>
  C10. For every node built from the filtered pairs, the connection count is the number of
  filtered pairs touching the node's coordinate plus the number of self-loop pairs at
  that coordinate. So the list \<^verbatim>\<open>findPairsForCity\<close> returns is as long as the connection
  count exactly when no pair is a self-loop at the node, and strictly shorter otherwise.
\<close>

theorem connections_touching_plus_self_loops:
  assumes "n \<in> set (cities filtered)"
  shows "connections n = length (filter (touches (coords n)) filtered)
                       + length (filter (self_loop_at (coords n)) filtered)
       \<and> length (findPairsForCity filtered n) + length (filter (self_loop_at (coords n)) filtered)
           = connections n
       \<and> (length (findPairsForCity filtered n) = connections n
            \<longleftrightarrow> filter (self_loop_at (coords n)) filtered = [])
       \<and> (filter (self_loop_at (coords n)) filtered \<noteq> []
            \<longrightarrow> length (findPairsForCity filtered n) < connections n)"
  using node_connections [OF assms] endpoint_count_split [of "snd (coords n)" "fst (coords n)" filtered]
  by (auto simp: findPairsForCity_touches)


theorem connections_touching_plus_self_loops_witness:
  "cities [pair_A_B, pair_A2_C] ! 0 \<in> set (cities [pair_A_B, pair_A2_C])
   \<and> connections (cities [pair_A_B, pair_A2_C] ! 0) = 2
   \<and> length (findPairsForCity [pair_A_B, pair_A2_C] (cities [pair_A_B, pair_A2_C] ! 0)) = 2"
proof -
  have m: "cities [pair_A_B, pair_A2_C] ! 0 \<in> set (cities [pair_A_B, pair_A2_C])"
    by (simp add: build_defs pair_A_B_def pair_A2_C_def)
  have s: "filter (self_loop_at (coords (cities [pair_A_B, pair_A2_C] ! 0))) [pair_A_B, pair_A2_C] = []"
    by (simp add: build_defs pair_A_B_def pair_A2_C_def self_loop_at_def)
  have t: "length (filter (touches (coords (cities [pair_A_B, pair_A2_C] ! 0))) [pair_A_B, pair_A2_C]) = 2"
    by (simp add: build_defs pair_A_B_def pair_A2_C_def touches_def)
  from connections_touching_plus_self_loops [OF m] m s t show ?thesis
    by simp
qed


text \<open>
  C6, as the code has it. For every permutation of the filtered pairs the node builder
  yields the same coordinates with the same connection count at each, the same number
  of nodes, and the same count under every key. The name and country of a node are those
  of the first pair, in iteration order, that refers to its coordinate, and the nodes are
  listed in the order of their first appearance.
\<close>

theorem permutation_keeps_coordinates_and_counts:
  assumes "mset filtered = mset filtered'"
  shows "(\<lambda>n. (coords n, connections n)) ` set (cities filtered)
           = (\<lambda>n. (coords n, connections n)) ` set (cities filtered')
       \<and> length (cities filtered) = length (cities filtered')
       \<and> conn_at (cityMap filtered) k = conn_at (cityMap filtered') k"
  by (simp add: cities_image length_cities conn_at_cityMap endpoint_count_mset [OF assms])




theorem permutation_keeps_coordinates_and_counts_witness:
  "mset [pair_A_B, pair_A2_C] = mset [pair_A2_C, pair_A_B]
   \<and> (\<lambda>n. (coords n, connections n)) ` set (cities [pair_A_B, pair_A2_C])
       = (\<lambda>n. (coords n, connections n)) ` set (cities [pair_A2_C, pair_A_B])
   \<and> length (cities [pair_A_B, pair_A2_C]) = length (cities [pair_A2_C, pair_A_B])
   \<and> conn_at (cityMap [pair_A_B, pair_A2_C]) (10, 10) = 2"
proof -
  have m: "mset [pair_A_B, pair_A2_C] = mset [pair_A2_C, pair_A_B]" by simp
  have c: "conn_at (cityMap [pair_A_B, pair_A2_C]) (10, 10) = 2"
    by (simp add: build_defs conn_at_def pair_A_B_def pair_A2_C_def)
  from permutation_keeps_coordinates_and_counts [OF m, of "(10, 10)"] m c show ?thesis
    by simp
qed


text \<open>
  C6, as the specification states it, fails: the two orders of the same two pairs give the
  node at latitude 10, longitude 10 two different names, and list the nodes in two
  different orders.
\<close>

theorem node_name_depends_on_order:
  "mset [pair_A_B, pair_A2_C] = mset [pair_A2_C, pair_A_B]
   \<and> map name (cities [pair_A_B, pair_A2_C]) = [ascii ''A'', ascii ''B'', ascii ''C'']
   \<and> map name (cities [pair_A2_C, pair_A_B]) = [ascii ''A2'', ascii ''C'', ascii ''B'']
   \<and> coords (cities [pair_A_B, pair_A2_C] ! 0) = coords (cities [pair_A2_C, pair_A_B] ! 0)
   \<and> name (cities [pair_A_B, pair_A2_C] ! 0) \<noteq> name (cities [pair_A2_C, pair_A_B] ! 0)"
  by (simp add: build_defs pair_A_B_def pair_A2_C_def)


section \<open>Properties of the interaction controller\<close>


lemmas handler_defs = handleWheel_def handleMouseDown_def handleMouseMove_def handleMouseUp_def
  dragResetTimer_def resetView_def zoomIn_def zoomOut_def handleCityClick_def handleMapClick_def

lemma zoom_step:
  assumes "1 / 2 \<le> zoom s" and "zoom s \<le> 20"
  shows "1 / 2 \<le> zoom (step filtered s e) \<and> zoom (step filtered s e) \<le> 20"
proof (cases e)
  case (Wheel deltaY)
  then show ?thesis by (simp add: handleWheel_def Let_def)
next
  case (MouseMove cx cy container)
  with assms show ?thesis
    by (simp add: handleMouseMove_def Let_def split: option.splits prod.splits)
next
  case ZoomIn
  with assms show ?thesis by (simp add: zoomIn_def)
next
  case ZoomOut
  with assms show ?thesis by (simp add: zoomOut_def)
qed (use assms in \<open>simp_all add: handler_defs\<close>)

lemma zoom_run:
  "1 / 2 \<le> zoom s \<Longrightarrow> zoom s \<le> 20 \<Longrightarrow>
   1 / 2 \<le> zoom (run filtered evs s) \<and> zoom (run filtered evs s) \<le> 20"
proof (induction evs arbitrary: s)
  case Nil
  then show ?case by (simp add: run_def)
next
  case (Cons e evs)
  from zoom_step [OF Cons.prems] have
    "1 / 2 \<le> zoom (step filtered s e)" "zoom (step filtered s e) \<le> 20" by simp_all
  from Cons.IH [OF this] show ?case by (simp add: run_def)
qed

text \<open>
  C4. After every finite sequence of events applied from the initial state (wheel events
  of any \<^verbatim>\<open>deltaY\<close>, zoom-in and zoom-out clicks, and every other event of the controller)
  the zoom lies in the interval from 0.5 to 20; a wheel event leaves the pan unchanged.
\<close>

theorem zoom_stays_clamped:
  "1 / 2 \<le> zoom (run filtered evs initialState)
   \<and> zoom (run filtered evs initialState) \<le> 20
   \<and> pan (handleWheel deltaY s) = pan s"
proof -
  have "1 / 2 \<le> zoom initialState" "zoom initialState \<le> 20"
    by (simp_all add: initialState_def)
  from zoom_run [OF this] show ?thesis by (simp add: handleWheel_def Let_def)
qed


lemma run_append: "run filtered (xs @ ys) s = run filtered ys (run filtered xs s)"
  by (simp add: run_def)

lemma run_Cons: "run filtered (e # evs) s = run filtered evs (step filtered s e)"
  by (simp add: run_def)

lemma move_state:
  assumes "isPanning s" and "panStart s = start"
  shows "isPanning (handleMouseMove cx cy container s)
       \<and> panStart (handleMouseMove cx cy container s) = start
       \<and> selectedCity (handleMouseMove cx cy container s) = selectedCity s
       \<and> (isDragging (handleMouseMove cx cy container s)
            \<longleftrightarrow> isDragging s \<or> 3 \<le> pixel_displacement start (cx, cy))"
  using assms
  by (auto simp: handleMouseMove_def Let_def pixel_displacement_def split: option.splits)

lemma moves_state:
  assumes "isPanning s" and "panStart s = start"
  shows "isPanning (run filtered (moves_events moves) s)
       \<and> panStart (run filtered (moves_events moves) s) = start
       \<and> selectedCity (run filtered (moves_events moves) s) = selectedCity s
       \<and> (isDragging (run filtered (moves_events moves) s)
            \<longleftrightarrow> isDragging s \<or> (\<exists>(cx, cy, container) \<in> set moves. 3 \<le> pixel_displacement start (cx, cy)))"
  using assms
proof (induction moves arbitrary: s)
  case Nil
  then show ?case by (simp add: moves_events_def run_def)
next
  case (Cons m moves)
  obtain cx cy container where m: "m = (cx, cy, container)" by (cases m) auto
  let ?s1 = "handleMouseMove cx cy container s"
  from move_state [OF Cons.prems, of cx cy container]
  have p: "isPanning ?s1" and st: "panStart ?s1 = start"
    and sel: "selectedCity ?s1 = selectedCity s"
    and dr: "isDragging ?s1 \<longleftrightarrow> isDragging s \<or> 3 \<le> pixel_displacement start (cx, cy)"
    by simp_all
  have r: "run filtered (moves_events (m # moves)) s = run filtered (moves_events moves) ?s1"
    by (simp add: moves_events_def run_def m)
  from Cons.IH [OF p st] sel dr show ?case
    unfolding r by (auto simp: m)
qed

lemma gesture_state:
  assumes "button = 0 \<or> button = 1"
  shows "selectedCity (run filtered (gesture button start moves ref city) s) =
     (if \<exists>(cx, cy, container) \<in> set moves. 3 \<le> pixel_displacement start (cx, cy)
      then selectedCity s else toggled filtered ref city (selectedCity s))"
proof -
  let ?s1 = "handleMouseDown button (fst start) (snd start) s"
  let ?s2 = "run filtered (moves_events moves) ?s1"
  have d: "isPanning ?s1" "panStart ?s1 = start" "\<not> isDragging ?s1" "selectedCity ?s1 = selectedCity s"
    using assms by (auto simp: handleMouseDown_def)
  from moves_state [OF d(1,2), of filtered moves] d(3,4)
  have sel: "selectedCity ?s2 = selectedCity s"
    and dr: "isDragging ?s2 \<longleftrightarrow> (\<exists>(cx, cy, container) \<in> set moves. 3 \<le> pixel_displacement start (cx, cy))"
    by simp_all
  have "run filtered (gesture button start moves ref city) s
      = handleCityClick filtered ref city (handleMouseUp ?s2)"
    by (simp add: gesture_def run_Cons run_append) (simp add: run_def)
  then show ?thesis using sel dr
    by (auto simp: handleCityClick_def handleMouseUp_def toggled_def)
qed

text \<open>
  C5, as the code has it. A gesture over a marker is a pointer-down with the primary or the
  middle button, any moves, the pointer-up and the click that follows it, on a node
  object. If some move is at least 3 screen pixels away from the pointer-down position
  (the sum of the horizontal and the vertical distance, not scaled), the click leaves
  the selection as it was. If every move stays below 3 screen pixels, the click toggles
  the selection: it clears the selection when the clicked object is the selected one
  (the same object, not an equal one), and selects the clicked node with the pairs
  touching it otherwise. This holds from every state.
\<close>

theorem click_after_gesture:
  assumes "button = 0 \<or> button = 1"
  shows "((\<exists>(cx, cy, container) \<in> set moves. 3 \<le> pixel_displacement start (cx, cy)) \<longrightarrow>
            selectedCity (run filtered (gesture button start moves ref city) s) = selectedCity s)
       \<and> ((\<forall>(cx, cy, container) \<in> set moves. pixel_displacement start (cx, cy) < 3) \<longrightarrow>
            selectedCity (run filtered (gesture button start moves ref city) s)
              = toggled filtered ref city (selectedCity s))"
  using gesture_state [OF assms, of filtered start moves ref city s] by auto

theorem click_after_gesture_witness:
  "selectedCity (run [] (gesture 0 (0, 0) [(5, 0, None)] 7 node_A) initialState) = None
   \<and> selectedCity (run [] (gesture 0 (0, 0) [(1, 0, None)] 7 node_A) initialState)
       = Some \<lparr>sel_ref = 7, sel_city = node_A, sel_pairs = []\<rparr>
   \<and> selectedCity (run [] (gesture 0 (0, 0) [] 7 node_A) state_selected_A) = None
   \<and> selectedCity (run [] (gesture 0 (0, 0) [] 8 node_A) state_selected_A)
       = Some \<lparr>sel_ref = 8, sel_city = node_A, sel_pairs = []\<rparr>"
proof -
  have b: "(0::int) = 0 \<or> (0::int) = 1" by simp
  have far: "\<exists>(cx, cy, container) \<in> set [(5, 0, None)]. 3 \<le> pixel_displacement (0, 0) (cx, cy)"
    by (simp add: pixel_displacement_def)
  have near: "\<forall>(cx, cy, container) \<in> set [(1, 0, None)]. pixel_displacement (0, 0) (cx, cy) < 3"
    by (simp add: pixel_displacement_def)
  have none: "\<forall>(cx, cy, container) \<in> set []. pixel_displacement (0, 0) (cx, cy) < 3"
    by simp
  have i: "selectedCity initialState = None" by (simp add: initialState_def)
  have t: "toggled [] 7 node_A None = Some \<lparr>sel_ref = 7, sel_city = node_A, sel_pairs = []\<rparr>"
    by (simp add: toggled_def findPairsForCity_def)
  have t7: "toggled [] 7 node_A (selectedCity state_selected_A) = None"
    by (simp add: toggled_def state_selected_A_def initialState_def)
  have t8: "toggled [] 8 node_A (selectedCity state_selected_A)
      = Some \<lparr>sel_ref = 8, sel_city = node_A, sel_pairs = []\<rparr>"
    by (simp add: toggled_def state_selected_A_def initialState_def findPairsForCity_def)
  from click_after_gesture [OF b, of "[(5, 0, None)]" "(0, 0)" "[]" 7 node_A initialState] far i
  have 1: "selectedCity (run [] (gesture 0 (0, 0) [(5, 0, None)] 7 node_A) initialState) = None"
    by simp
  from click_after_gesture [OF b, of "[(1, 0, None)]" "(0, 0)" "[]" 7 node_A initialState] near i t
  have 2: "selectedCity (run [] (gesture 0 (0, 0) [(1, 0, None)] 7 node_A) initialState)
       = Some \<lparr>sel_ref = 7, sel_city = node_A, sel_pairs = []\<rparr>"
    by simp
  from click_after_gesture [OF b, of "[]" "(0, 0)" "[]" 7 node_A state_selected_A] none t7
  have 3: "selectedCity (run [] (gesture 0 (0, 0) [] 7 node_A) state_selected_A) = None"
    by simp
  from click_after_gesture [OF b, of "[]" "(0, 0)" "[]" 8 node_A state_selected_A] none t8
  have 4: "selectedCity (run [] (gesture 0 (0, 0) [] 8 node_A) state_selected_A)
       = Some \<lparr>sel_ref = 8, sel_city = node_A, sel_pairs = []\<rparr>"
    by simp
  from 1 2 3 4 show ?thesis by simp
qed

text \<open>
  C5, as the specification states it, fails. With the map drawn 480 by 250 pixels a move of
  2 pixels is 4 units of the canvas, above the threshold of 3, and the click still
  toggles the selection; with the map drawn 1920 by 1000 pixels a move of 4 pixels is 2
  units, below the threshold, and the click does not toggle it.
\<close>

theorem scaled_threshold_counterexample:
  "3 < scaled_displacement (480, 250) (0, 0) (2, 0)
   \<and> selectedCity (run [] (gesture 0 (0, 0) [(2, 0, Some (480, 250))] 7 node_A) initialState)
       = Some \<lparr>sel_ref = 7, sel_city = node_A, sel_pairs = []\<rparr>
   \<and> scaled_displacement (1920, 1000) (0, 0) (4, 0) < 3
   \<and> selectedCity (run [] (gesture 0 (0, 0) [(4, 0, Some (1920, 1000))] 7 node_A) initialState)
       = None
   \<and> selectedCity initialState = None"
  by (simp add: scaled_displacement_def run_def gesture_def moves_events_def handler_defs
      initialState_def findPairsForCity_def Let_def)

section \<open>Properties of the loader\<close>

lemma loadPairs_keeps_truthy:
  "p \<in> set (loadPairs data) \<longleftrightarrow>
     p \<in> set data \<and> truthy (raw_lat1 p) \<and> truthy (raw_lng1 p)
       \<and> truthy (raw_lat2 p) \<and> truthy (raw_lng2 p)"
  by (auto simp: loadPairs_def js_and_def split: if_splits)

text \<open>
  C3. The loader keeps a row exactly when its four coordinate fields are truthy. A row whose
  first latitude is the number 0 has four finite numeric coordinates and is discarded;
  a row whose first latitude is the text \<^verbatim>\<open>N/A\<close> is kept.
\<close>

theorem load_drops_zero_coordinate:
  "loadPairs [row_equator] = [] \<and> loadPairs [row_text_latitude] = [row_text_latitude]"
  by (simp add: loadPairs_def js_and_def row_equator_def row_text_latitude_def)

section \<open>Properties of the label placement\<close>

lemma snd_placeLabels_Cons:
  "snd (placeLabels (c # rest) placed) = snd (placeLabels rest (placed @ [placed_rect c placed]))"
  by (simp add: Let_def placed_rect_def)

lemma fst_placeLabels_Cons:
  "fst (placeLabels (c # rest) placed) =
     c\<lparr>labelX := fst (placeOne c placed), labelY := snd (placeOne c placed)\<rparr>
     # fst (placeLabels rest (placed @ [placed_rect c placed]))"
  by (simp add: Let_def placed_rect_def)

declare placeLabels.simps(2) [simp del]

lemma placed_extends:
  "\<exists>new. snd (placeLabels cs placed) = placed @ new \<and> length new = length cs"
proof (induction cs arbitrary: placed)
  case Nil
  then show ?case by simp
next
  case (Cons c cs)
  from Cons.IH [of "placed @ [placed_rect c placed]"] obtain new where
    "snd (placeLabels cs (placed @ [placed_rect c placed])) = (placed @ [placed_rect c placed]) @ new"
    and "length new = length cs" by blast
  then have "snd (placeLabels (c # cs) placed) = placed @ (placed_rect c placed # new)
      \<and> length (placed_rect c placed # new) = length (c # cs)"
    by (simp add: snd_placeLabels_Cons)
  then show ?case by blast
qed

lemma length_placed: "length (snd (placeLabels cs placed)) = length placed + length cs"
  using placed_extends [of cs placed] by auto

lemma take_placed: "take (length placed) (snd (placeLabels cs placed)) = placed"
  using placed_extends [of cs placed] by auto

lemma placeLabels_append:
  "snd (placeLabels (xs @ ys) placed) = snd (placeLabels ys (snd (placeLabels xs placed)))"
  by (induction xs arbitrary: placed) (simp_all add: snd_placeLabels_Cons)

lemma fst_placeLabels_append:
  "fst (placeLabels (xs @ ys) placed) =
     fst (placeLabels xs placed) @ fst (placeLabels ys (snd (placeLabels xs placed)))"
  by (induction xs arbitrary: placed) (simp_all add: snd_placeLabels_Cons fst_placeLabels_Cons)

lemma placed_take:
  assumes "j \<le> length cs"
  shows "take (length placed + j) (snd (placeLabels cs placed)) = snd (placeLabels (take j cs) placed)"
proof -
  have "snd (placeLabels cs placed) = snd (placeLabels (take j cs @ drop j cs) placed)" by simp
  also have "\<dots> = snd (placeLabels (drop j cs) (snd (placeLabels (take j cs) placed)))"
    by (rule placeLabels_append)
  finally have e: "snd (placeLabels cs placed)
      = snd (placeLabels (drop j cs) (snd (placeLabels (take j cs) placed)))" .
  have l: "length (snd (placeLabels (take j cs) placed)) = length placed + j"
    using assms by (simp add: length_placed)
  show ?thesis
    using take_placed [of "snd (placeLabels (take j cs) placed)" "drop j cs"]
    unfolding l e [symmetric] .
qed

lemma labels_take:
  assumes "j \<le> length cs"
  shows "take j (fst (placeLabels cs placed)) = fst (placeLabels (take j cs) placed)"
proof -
  have len: "\<And>xs pl. length (fst (placeLabels xs pl)) = length xs"
  proof -
    fix xs :: "Label list" and pl
    show "length (fst (placeLabels xs pl)) = length xs"
      by (induction xs arbitrary: pl) (simp_all add: fst_placeLabels_Cons)
  qed
  have "fst (placeLabels cs placed) = fst (placeLabels (take j cs @ drop j cs) placed)" by simp
  also have "\<dots> = fst (placeLabels (take j cs) placed)
      @ fst (placeLabels (drop j cs) (snd (placeLabels (take j cs) placed)))"
    by (rule fst_placeLabels_append)
  finally show ?thesis using assms by (simp add: len)
qed

lemma placed_nth:
  assumes "j < length cs"
  shows "snd (placeLabels cs placed) ! (length placed + j)
       = placed_rect (cs ! j) (take (length placed + j) (snd (placeLabels cs placed)))"
proof -
  have c: "cs = take j cs @ cs ! j # drop (Suc j) cs"
    using assms by (simp add: id_take_nth_drop)
  let ?P = "snd (placeLabels (take j cs) placed)"
  have l: "length ?P = length placed + j" using assms by (simp add: length_placed)
  have "snd (placeLabels cs placed) = snd (placeLabels (cs ! j # drop (Suc j) cs) ?P)"
    by (subst c) (rule placeLabels_append)
  also have "\<dots> = snd (placeLabels (drop (Suc j) cs) (?P @ [placed_rect (cs ! j) ?P]))"
    by (rule snd_placeLabels_Cons)
  finally have e: "snd (placeLabels cs placed)
      = snd (placeLabels (drop (Suc j) cs) (?P @ [placed_rect (cs ! j) ?P]))" .
  from placed_extends [of "drop (Suc j) cs" "?P @ [placed_rect (cs ! j) ?P]"] obtain new where
    "snd (placeLabels cs placed) = (?P @ [placed_rect (cs ! j) ?P]) @ new"
    unfolding e [symmetric] by blast
  then have "snd (placeLabels cs placed) ! (length placed + j) = placed_rect (cs ! j) ?P"
    using l by (simp add: nth_append)
  moreover have "take (length placed + j) (snd (placeLabels cs placed)) = ?P"
    using assms by (simp add: placed_take)
  ultimately show ?thesis by simp
qed

lemma label_nth:
  assumes "j < length cs"
  shows "fst (placeLabels cs placed) ! j
       = (cs ! j)\<lparr>labelX := rx (snd (placeLabels cs placed) ! (length placed + j)),
                  labelY := ry (snd (placeLabels cs placed) ! (length placed + j))\<rparr>"
  using assms
proof (induction cs arbitrary: placed j)
  case Nil
  then show ?case by simp
next
  case (Cons c cs)
  show ?case
  proof (cases j)
    case 0
    have "snd (placeLabels (c # cs) placed) ! (length placed + 0)
        = placed_rect c (take (length placed + 0) (snd (placeLabels (c # cs) placed)))"
      using placed_nth [of 0 "c # cs" placed] by simp
    then have "snd (placeLabels (c # cs) placed) ! length placed = placed_rect c placed"
      by (simp add: take_placed)
    with 0 show ?thesis by (simp add: fst_placeLabels_Cons placed_rect_def)
  next
    case (Suc j')
    with Cons.prems have "j' < length cs" by simp
    from Cons.IH [OF this, of "placed @ [placed_rect c placed]"] Suc
    show ?thesis by (simp add: fst_placeLabels_Cons snd_placeLabels_Cons)
  qed
qed

lemma tryOffsets_free:
  "tryOffsets pr lw placed offs = Some b \<Longrightarrow> \<not> overlaps (fst b) (snd b) lw placed"
  by (induction pr lw placed offs rule: tryOffsets.induct) (auto simp: Let_def split: if_splits)

lemma tryOffsets_None:
  "tryOffsets pr lw placed offs = None \<longleftrightarrow>
     (\<forall>k < length offs. overlaps (fst pr + fst (offs ! k)) (snd pr + snd (offs ! k)) lw placed)"
proof (induction pr lw placed offs rule: tryOffsets.induct)
  case (1 pr lw placed)
  then show ?case by simp
next
  case (2 pr lw placed ox oy rest)
  then show ?case by (auto simp: Let_def All_less_Suc2 nth_Cons split: nat.splits)
qed

lemma tryOffsets_first:
  assumes "k < length offs"
    and "\<not> overlaps (fst pr + fst (offs ! k)) (snd pr + snd (offs ! k)) lw placed"
    and "\<forall>k' < k. overlaps (fst pr + fst (offs ! k')) (snd pr + snd (offs ! k')) lw placed"
  shows "tryOffsets pr lw placed offs = Some (fst pr + fst (offs ! k), snd pr + snd (offs ! k))"
  using assms
proof (induction offs arbitrary: k)
  case Nil
  then show ?case by simp
next
  case (Cons o1 offs)
  obtain ox oy where o1: "o1 = (ox, oy)" by (cases o1) auto
  show ?case
  proof (cases k)
    case 0
    with Cons.prems o1 show ?thesis by (simp add: Let_def)
  next
    case (Suc k')
    from Cons.prems(3) Suc have first: "overlaps (fst pr + ox) (snd pr + oy) lw placed"
      using o1 by force
    have "k' < length offs" using Cons.prems(1) Suc by simp
    moreover have "\<not> overlaps (fst pr + fst (offs ! k')) (snd pr + snd (offs ! k')) lw placed"
      using Cons.prems(2) Suc by simp
    moreover have "\<forall>i < k'. overlaps (fst pr + fst (offs ! i)) (snd pr + snd (offs ! i)) lw placed"
    proof (intro allI impI)
      fix i assume "i < k'"
      then have "Suc i < k" using Suc by simp
      with Cons.prems(3) show "overlaps (fst pr + fst (offs ! i)) (snd pr + snd (offs ! i)) lw placed"
        by fastforce
    qed
    ultimately have "tryOffsets pr lw placed offs
        = Some (fst pr + fst (offs ! k'), snd pr + snd (offs ! k'))"
      by (rule Cons.IH)
    with first o1 Suc show ?thesis by (simp add: Let_def)
  qed
qed

lemma scanDown_free:
  "scanDown pr lw placed dy = Some b \<Longrightarrow> \<not> overlaps (fst b) (snd b) lw placed"
proof (induction pr lw placed dy rule: scanDown.induct)
  case (1 pr lw placed dy)
  show ?case
  proof (cases "dy < 200 \<and> overlaps (fst pr + 7) (snd pr + dy) lw placed")
    case True
    with "1.prems" have "scanDown pr lw placed (dy + lh + pad) = Some b"
      by (subst (asm) scanDown.simps) (simp add: Let_def)
    with True show ?thesis by (intro "1.IH" [OF _ refl refl]) simp_all
  next
    case False
    with "1.prems" show ?thesis
      by (subst (asm) scanDown.simps) (auto simp: Let_def split: if_splits)
  qed
qed

lemma scanDown_None_slots:
  assumes "i \<le> 12"
  shows "scanDown pr lw placed (real i * (lh + pad)) = None \<longleftrightarrow>
     (\<forall>j. i \<le> j \<and> j < 12 \<longrightarrow> overlaps (fst pr + 7) (snd pr + real j * (lh + pad)) lw placed)"
  using assms
proof (induction "12 - i" arbitrary: i)
  case 0
  then have "i = 12" by simp
  then show ?case by (subst scanDown.simps) (auto simp: lh_def pad_def)
next
  case (Suc n)
  then have i: "i < 12" and n: "n = 12 - Suc i" and le: "Suc i \<le> 12" by simp_all
  let ?Q = "\<lambda>j. overlaps (fst pr + 7) (snd pr + real j * (lh + pad)) lw placed"
  have lt: "real i * (lh + pad) < 200" using i by (simp add: lh_def pad_def)
  have nxt: "real i * (lh + pad) + lh + pad = real (Suc i) * (lh + pad)"
    by (simp add: algebra_simps)
  have unfold: "scanDown pr lw placed (real i * (lh + pad)) =
      (if \<not> ?Q i then Some (fst pr + 7, snd pr + real i * (lh + pad))
       else scanDown pr lw placed (real (Suc i) * (lh + pad)))"
    by (subst scanDown.simps) (simp only: lt if_True Let_def nxt)
  have ih: "scanDown pr lw placed (real (Suc i) * (lh + pad)) = None \<longleftrightarrow>
      (\<forall>j. Suc i \<le> j \<and> j < 12 \<longrightarrow> ?Q j)"
    by (rule Suc.hyps(1) [OF n le])
  have split: "(\<forall>j. i \<le> j \<and> j < 12 \<longrightarrow> ?Q j) \<longleftrightarrow> ?Q i \<and> (\<forall>j. Suc i \<le> j \<and> j < 12 \<longrightarrow> ?Q j)"
  proof
    assume a: "\<forall>j. i \<le> j \<and> j < 12 \<longrightarrow> ?Q j"
    with i have "?Q i" by blast
    moreover have "\<forall>j. Suc i \<le> j \<and> j < 12 \<longrightarrow> ?Q j"
      using a by (meson Suc_leD)
    ultimately show "?Q i \<and> (\<forall>j. Suc i \<le> j \<and> j < 12 \<longrightarrow> ?Q j)" by blast
  next
    assume b: "?Q i \<and> (\<forall>j. Suc i \<le> j \<and> j < 12 \<longrightarrow> ?Q j)"
    show "\<forall>j. i \<le> j \<and> j < 12 \<longrightarrow> ?Q j"
    proof (intro allI impI)
      fix j assume j: "i \<le> j \<and> j < 12"
      show "?Q j"
      proof (cases "j = i")
        case True
        with b show ?thesis by simp
      next
        case False
        with j have "Suc i \<le> j" by simp
        with b j show ?thesis by blast
      qed
    qed
  qed
  show ?case
  proof (cases "?Q i")
    case True
    then have "scanDown pr lw placed (real i * (lh + pad))
        = scanDown pr lw placed (real (Suc i) * (lh + pad))"
      by (simp only: unfold not_True_eq_False if_False)
    with ih split True show ?thesis by simp
  next
    case False
    then have "scanDown pr lw placed (real i * (lh + pad)) \<noteq> None"
      by (simp only: unfold not_False_eq_True if_True) simp
    moreover from split False have "\<not> (\<forall>j. i \<le> j \<and> j < 12 \<longrightarrow> ?Q j)" by blast
    ultimately show ?thesis by blast
  qed
qed

lemma candidate_positions:
  "map (candidate c) [0..<8] =
     (let px = fst (projected c); py = snd (projected c); lw = labelWidth c
      in [(px + 7, py - 8), (px + 7, py + 6), (px - lw - 5, py - 8), (px - lw - 5, py + 6),
          (px + 7, py - 25), (px + 7, py + 23), (px - lw - 5, py - 25), (px - lw - 5, py + 23)])"
  by (simp add: candidate_def offsets_def lh_def pad_def Let_def upt_rec [of 0] upt_rec [of "Suc _"]
      eval_nat_numeral)

lemma scanDown_None:
  "scanDown (projected c) (labelWidth c) placed 0 = None \<longleftrightarrow>
     (\<forall>i < 12. \<not> free_at c placed (scan_slot c i))"
  using scanDown_None_slots [of 0 "projected c" "labelWidth c" placed]
  by (simp add: free_at_def scan_slot_def)

lemma scanDown_unfold:
  assumes "i < 12"
  shows "scanDown pr lw placed (real i * (lh + pad)) =
      (if \<not> overlaps (fst pr + 7) (snd pr + real i * (lh + pad)) lw placed
       then Some (fst pr + 7, snd pr + real i * (lh + pad))
       else scanDown pr lw placed (real (Suc i) * (lh + pad)))"
proof -
  have lt: "real i * (lh + pad) < 200" using assms by (simp add: lh_def pad_def)
  have nxt: "real i * (lh + pad) + lh + pad = real (Suc i) * (lh + pad)"
    by (simp add: algebra_simps)
  show ?thesis by (subst scanDown.simps) (simp only: lt if_True Let_def nxt)
qed

lemma scanDown_first_from:
  assumes "i0 \<le> i" and "i < 12"
    and "\<not> overlaps (fst pr + 7) (snd pr + real i * (lh + pad)) lw placed"
    and "\<forall>j. i0 \<le> j \<and> j < i \<longrightarrow> overlaps (fst pr + 7) (snd pr + real j * (lh + pad)) lw placed"
  shows "scanDown pr lw placed (real i0 * (lh + pad)) = Some (fst pr + 7, snd pr + real i * (lh + pad))"
  using assms
proof (induction "i - i0" arbitrary: i0)
  case 0
  then have "i0 = i" by simp
  with "0.prems"(2,3) show ?case by (simp add: scanDown_unfold)
next
  case (Suc n)
  then have lt: "i0 < i" and n: "n = i - Suc i0" and le: "Suc i0 \<le> i" by simp_all
  from lt Suc.prems(2) have i0: "i0 < 12" by simp
  from lt Suc.prems(4) have taken: "overlaps (fst pr + 7) (snd pr + real i0 * (lh + pad)) lw placed"
    by simp
  have rest: "\<forall>j. Suc i0 \<le> j \<and> j < i \<longrightarrow> overlaps (fst pr + 7) (snd pr + real j * (lh + pad)) lw placed"
    using Suc.prems(4) by (meson Suc_leD)
  have "scanDown pr lw placed (real i0 * (lh + pad))
      = scanDown pr lw placed (real (Suc i0) * (lh + pad))"
    using taken by (simp only: scanDown_unfold [OF i0] not_True_eq_False if_False)
  also have "\<dots> = Some (fst pr + 7, snd pr + real i * (lh + pad))"
    by (rule Suc.hyps(1) [OF n le Suc.prems(2,3) rest])
  finally show ?case .
qed

lemma tryOffsets_None_candidates:
  "tryOffsets (projected c) (labelWidth c) placed (offsets (labelWidth c)) = None \<longleftrightarrow>
     (\<forall>k < 8. \<not> free_at c placed (candidate c k))"
proof -
  have len: "length (offsets (labelWidth c)) = 8" by (simp add: offsets_def)
  show ?thesis by (simp add: tryOffsets_None len free_at_def candidate_def)
qed

lemma placeOne_free:
  assumes "some_position_free c placed"
  shows "\<not> overlaps (fst (placeOne c placed)) (snd (placeOne c placed)) (labelWidth c) placed"
proof (cases "tryOffsets (projected c) (labelWidth c) placed (offsets (labelWidth c))")
  case (Some b)
  with tryOffsets_free [OF Some] show ?thesis by (simp add: placeOne_def Let_def)
next
  case None
  then have "\<forall>k < 8. \<not> free_at c placed (candidate c k)"
    by (simp only: tryOffsets_None_candidates)
  with assms have "\<exists>i < 12. free_at c placed (scan_slot c i)"
    by (auto simp: some_position_free_def)
  then have "scanDown (projected c) (labelWidth c) placed 0 \<noteq> None"
    by (simp only: scanDown_None) blast
  then obtain b where b: "scanDown (projected c) (labelWidth c) placed 0 = Some b" by blast
  with scanDown_free [OF b] None show ?thesis by (simp add: placeOne_def Let_def)
qed

lemma placeOne_default:
  assumes "\<not> some_position_free c placed"
  shows "placeOne c placed = (labelX c, labelY c)"
proof -
  from assms have "\<forall>k < 8. \<not> free_at c placed (candidate c k)"
    and "\<forall>i < 12. \<not> free_at c placed (scan_slot c i)"
    by (auto simp: some_position_free_def)
  then have "tryOffsets (projected c) (labelWidth c) placed (offsets (labelWidth c)) = None"
    and "scanDown (projected c) (labelWidth c) placed 0 = None"
    by (simp_all only: tryOffsets_None_candidates scanDown_None)
  then show ?thesis by (simp add: placeOne_def Let_def)
qed

lemma placeOne_first:
  assumes "k < 8" and "free_at c placed (candidate c k)"
    and "\<forall>k' < k. \<not> free_at c placed (candidate c k')"
  shows "placeOne c placed = candidate c k"
proof -
  have len: "length (offsets (labelWidth c)) = 8" by (simp add: offsets_def)
  have "tryOffsets (projected c) (labelWidth c) placed (offsets (labelWidth c))
      = Some (fst (projected c) + fst (offsets (labelWidth c) ! k),
              snd (projected c) + snd (offsets (labelWidth c) ! k))"
    using assms by (intro tryOffsets_first) (simp_all add: len free_at_def candidate_def)
  then show ?thesis by (simp add: placeOne_def Let_def candidate_def)
qed

lemma placeOne_scan:
  assumes "\<forall>k < 8. \<not> free_at c placed (candidate c k)"
    and "i < 12" and "free_at c placed (scan_slot c i)"
    and "\<forall>i' < i. \<not> free_at c placed (scan_slot c i')"
  shows "placeOne c placed = scan_slot c i"
proof -
  have none: "tryOffsets (projected c) (labelWidth c) placed (offsets (labelWidth c)) = None"
    using assms(1) by (simp only: tryOffsets_None_candidates)
  have "scanDown (projected c) (labelWidth c) placed (real (0::nat) * (lh + pad))
      = Some (fst (projected c) + 7, snd (projected c) + real i * (lh + pad))"
    using assms(2,3,4) by (intro scanDown_first_from) (simp_all add: free_at_def scan_slot_def)
  then have "scanDown (projected c) (labelWidth c) placed 0 = Some (scan_slot c i)"
    by (simp add: scan_slot_def)
  with none show ?thesis by (simp add: placeOne_def Let_def)
qed

lemma rect_nth:
  assumes "j < length cs"
  shows "placedRects_of cs ! j = placed_rect (cs ! j) (take j (placedRects_of cs))"
  using placed_nth [OF assms, of "[]"] by (simp add: placedRects_of_def)

lemma rects_overlap_sym:
  "rh a = lh \<Longrightarrow> rh b = lh \<Longrightarrow> rects_overlap a b = rects_overlap b a"
  by (auto simp: rects_overlap_def hits_def)

lemma length_labels: "length (fst (placeLabels cs placed)) = length cs"
  by (induction cs arbitrary: placed) (simp_all add: fst_placeLabels_Cons)

lemma rects_are_label_rects:
  "placedRects_of cs = map label_rect (fst (placeLabels cs []))"
proof (rule nth_equalityI)
  show "length (placedRects_of cs) = length (map label_rect (fst (placeLabels cs [])))"
    by (simp add: placedRects_of_def length_placed length_labels)
next
  fix j assume "j < length (placedRects_of cs)"
  then have j: "j < length cs" by (simp add: placedRects_of_def length_placed)
  have r: "placedRects_of cs ! j = placed_rect (cs ! j) (take j (placedRects_of cs))"
    by (rule rect_nth [OF j])
  have l: "fst (placeLabels cs []) ! j
      = (cs ! j)\<lparr>labelX := rx (placedRects_of cs ! j), labelY := ry (placedRects_of cs ! j)\<rparr>"
    using label_nth [OF j, of "[]"] by (simp add: placedRects_of_def)
  have "label_rect (fst (placeLabels cs []) ! j) = placedRects_of cs ! j"
    unfolding l by (simp add: r label_rect_def placed_rect_def labelWidth_def)
  then show "placedRects_of cs ! j = map label_rect (fst (placeLabels cs [])) ! j"
    using j by (simp add: length_labels)
qed

text \<open>Both passes are instances: the rectangles of the labels they return are the
  rectangles of the pass over their label entries.\<close>

lemma selection_pass_rects:
  "map label_rect (selectedConnectedCities proj (Some sel)) = placedRects_of (connected proj sel)"
  by (simp add: selectedConnectedCities_def rects_are_label_rects)

lemma search_pass_rects:
  "map label_rect (searchLabels proj True False cs) =
     placedRects_of (List.map_filter
       (\<lambda>city. map_option (make_label (name city) (country city)) (proj (coords city))) cs)"
  by (simp add: searchLabels_def rects_are_label_rects)

lemmas place_defs = placeOne_def offsets_def overlaps_def hits_def lh_def pad_def
  labelWidth_def make_label_def label_A_def Let_def scanDown.simps rects_A_def slots_A_def rect_A_def

lemma placeOne_A_all:
  "\<forall>k<15. placeOne label_A (rects_A k) = slots_A ! k"
  by (simp add: All_less_Suc eval_nat_numeral place_defs)

lemma placeOne_A_full: "placeOne label_A (rects_A 15) = (7, -8)"
  by (simp add: place_defs)

lemma all_positions_taken_A: "\<not> some_position_free label_A (rects_A 15)"
  by (simp add: some_position_free_def free_at_def candidate_def scan_slot_def
      All_less_Suc eval_nat_numeral place_defs)

lemma placed_rect_A:
  assumes "k < 15"
  shows "rects_A k @ [placed_rect label_A (rects_A k)] = rects_A (Suc k)"
proof -
  have "placeOne label_A (rects_A k) = slots_A ! k" using assms placeOne_A_all by blast
  then have "placed_rect label_A (rects_A k) = rect_A (slots_A ! k)"
    by (simp add: placed_rect_def rect_A_def labelWidth_def label_A_def make_label_def lh_def)
  moreover have "k < length slots_A" using assms by (simp add: slots_A_def)
  ultimately show ?thesis by (simp add: rects_A_def take_Suc_conv_app_nth)
qed

lemma pass_A:
  "k + n \<le> 15 \<Longrightarrow> snd (placeLabels (replicate n label_A) (rects_A k)) = rects_A (k + n)"
proof (induction n arbitrary: k)
  case 0
  then show ?case by simp
next
  case (Suc n)
  then have k: "k < 15" and rest: "Suc k + n \<le> 15" by simp_all
  from Suc.IH [OF rest] show ?case
    by (simp add: snd_placeLabels_Cons placed_rect_A [OF k])
qed

lemma rects_fifteen: "placedRects_of (replicate 15 label_A) = rects_A 15"
  using pass_A [of 0 15] by (simp add: placedRects_of_def rects_A_def)

lemma rects_sixteen:
  "placedRects_of (replicate 16 label_A) = rects_A 15 @ [rect_A (7, -8)]"
proof -
  have "replicate 16 label_A = replicate 15 label_A @ [label_A]"
    using replicate_add [of 15 1 label_A] by simp
  then have "placedRects_of (replicate 16 label_A)
      = snd (placeLabels [label_A] (placedRects_of (replicate 15 label_A)))"
    by (simp add: placedRects_of_def placeLabels_append)
  also have "\<dots> = rects_A 15 @ [placed_rect label_A (rects_A 15)]"
    by (simp add: rects_fifteen snd_placeLabels_Cons)
  also have "placed_rect label_A (rects_A 15) = rect_A (7, -8)"
    unfolding placed_rect_def placeOne_A_full
    by (simp add: rect_A_def labelWidth_def label_A_def make_label_def lh_def)
  finally show ?thesis .
qed

lemma length_rects_A: "k \<le> 15 \<Longrightarrow> length (rects_A k) = k"
  by (simp add: rects_A_def slots_A_def)

lemma rects_two: "placedRects_of [label_A, label_A] = rects_A 2"
proof -
  have "replicate (Suc (Suc 0)) label_A = [label_A, label_A]" by simp
  with pass_A [of 0 "Suc (Suc 0)"] show ?thesis
    by (simp add: placedRects_of_def rects_A_def numeral_2_eq_2)
qed

lemma take_rects_two: "take (Suc 0) (placedRects_of [label_A, label_A]) = rects_A (Suc 0)"
  by (simp add: rects_two rects_A_def slots_A_def eval_nat_numeral)

lemma free_two:
  "free_at label_A (rects_A (Suc 0)) (candidate label_A 2)"
  "\<not> free_at label_A (rects_A (Suc 0)) (candidate label_A 0)"
  "\<not> free_at label_A (rects_A (Suc 0)) (candidate label_A (Suc 0))"
  by (simp_all add: free_at_def candidate_def eval_nat_numeral place_defs)

lemma connected_loops: "connected origin_projection selection_loops = replicate 16 label_A"
proof -
  have t: "twin_label origin_projection (sel_city selection_loops) pair_loop = Some label_A"
    by (simp add: twin_label_def selection_loops_def pair_loop_def origin_projection_def
        label_A_def or_empty_def Let_def)
  have "List.map_filter (twin_label origin_projection (sel_city selection_loops))
      (replicate 15 pair_loop) = replicate 15 label_A"
    by (simp add: map_filter_def t)
  moreover have "sel_pairs selection_loops = replicate 15 pair_loop"
    by (simp add: selection_loops_def)
  moreover have "origin_projection (coords (sel_city selection_loops)) = Some (0, 0)"
    by (simp add: selection_loops_def origin_projection_def)
  moreover have "make_label (name (sel_city selection_loops)) (country (sel_city selection_loops)) (0, 0)
      = label_A"
    by (simp add: selection_loops_def label_A_def)
  moreover have "label_A # replicate 15 label_A = replicate 16 label_A"
    using replicate_Suc [of 15 label_A] by simp
  ultimately show ?thesis by (simp add: connected_def)
qed

text \<open>
  C1, as the code has it. In one placement pass, a label for which one of the twenty
  positions tried (the eight candidates, then the twelve slots of the downward scan) is
  free of the rectangles placed before it gets a rectangle that overlaps none of them,
  padding included. A label for which all twenty positions are taken keeps the position
  it came with, the default right-above the anchor. The rectangles recorded by the pass
  are those of the labels it returns, and the scan always ends, after at most twelve
  slots.
\<close>

theorem placed_rect_free_unless_all_positions_taken:
  assumes "j < length cs"
  shows "(some_position_free (cs ! j) (take j (placedRects_of cs)) \<longrightarrow>
            (\<forall>i < j. \<not> rects_overlap (placedRects_of cs ! j) (placedRects_of cs ! i)
                   \<and> \<not> rects_overlap (placedRects_of cs ! i) (placedRects_of cs ! j)))
       \<and> (\<not> some_position_free (cs ! j) (take j (placedRects_of cs)) \<longrightarrow>
            rx (placedRects_of cs ! j) = labelX (cs ! j)
            \<and> ry (placedRects_of cs ! j) = labelY (cs ! j))
       \<and> placedRects_of cs = map label_rect (fst (placeLabels cs []))"
proof (intro conjI impI allI)
  let ?R = "placedRects_of cs"
  have len: "length ?R = length cs" by (simp add: placedRects_of_def length_placed)
  have rj: "?R ! j = placed_rect (cs ! j) (take j ?R)" by (rule rect_nth [OF assms])
  {
    fix i assume free: "some_position_free (cs ! j) (take j ?R)" and i: "i < j"
    from placeOne_free [OF free]
    have "\<not> overlaps (rx (?R ! j)) (ry (?R ! j)) (rw (?R ! j)) (take j ?R)"
      by (simp add: rj placed_rect_def)
    moreover have "?R ! i \<in> set (take j ?R)"
    proof -
      have "i < length (take j ?R)" using i assms len by simp
      then have "take j ?R ! i \<in> set (take j ?R)" by (rule nth_mem)
      with i show ?thesis by simp
    qed
    ultimately have a: "\<not> rects_overlap (?R ! j) (?R ! i)"
      by (auto simp: overlaps_def list_ex_iff rects_overlap_def)
    have "rh (?R ! j) = lh" by (simp add: rj placed_rect_def)
    moreover have "rh (?R ! i) = lh"
      using rect_nth [of i cs] i assms by (simp add: placed_rect_def)
    ultimately have "rects_overlap (?R ! i) (?R ! j) = rects_overlap (?R ! j) (?R ! i)"
      by (intro rects_overlap_sym)
    with a show "\<not> rects_overlap (?R ! j) (?R ! i)" and "\<not> rects_overlap (?R ! i) (?R ! j)"
      by simp_all
  }
  {
    assume "\<not> some_position_free (cs ! j) (take j ?R)"
    from placeOne_default [OF this]
    show "rx (?R ! j) = labelX (cs ! j)" and "ry (?R ! j) = labelY (cs ! j)"
      by (simp_all add: rj placed_rect_def)
  }
  show "?R = map label_rect (fst (placeLabels cs []))" by (rule rects_are_label_rects)
qed

theorem placed_rect_free_unless_all_positions_taken_witness:
  "some_position_free ([label_A, label_A] ! 1) (take 1 (placedRects_of [label_A, label_A]))
   \<and> \<not> rects_overlap (placedRects_of [label_A, label_A] ! 1) (placedRects_of [label_A, label_A] ! 0)
   \<and> \<not> some_position_free (replicate 16 label_A ! 15) (take 15 (placedRects_of (replicate 16 label_A)))
   \<and> rx (placedRects_of (replicate 16 label_A) ! 15) = labelX label_A
   \<and> ry (placedRects_of (replicate 16 label_A) ! 15) = labelY label_A"
proof -
  have j: "(1::nat) < length [label_A, label_A]" by simp
  have f: "some_position_free ([label_A, label_A] ! 1) (take 1 (placedRects_of [label_A, label_A]))"
    using free_two(1) by (auto simp: some_position_free_def take_rects_two)
  have j': "(15::nat) < length (replicate 16 label_A)" by simp
  have t: "take 15 (placedRects_of (replicate 16 label_A)) = rects_A 15"
    by (simp add: rects_sixteen length_rects_A)
  have n: "replicate 16 label_A ! 15 = label_A" by simp
  have g: "\<not> some_position_free (replicate 16 label_A ! 15)
      (take 15 (placedRects_of (replicate 16 label_A)))"
    unfolding t n by (rule all_positions_taken_A)
  have a: "\<not> rects_overlap (placedRects_of [label_A, label_A] ! 1)
      (placedRects_of [label_A, label_A] ! 0)"
    using placed_rect_free_unless_all_positions_taken [OF j, THEN conjunct1] f by simp
  have b: "rx (placedRects_of (replicate 16 label_A) ! 15) = labelX (replicate 16 label_A ! 15)
      \<and> ry (placedRects_of (replicate 16 label_A) ! 15) = labelY (replicate 16 label_A ! 15)"
    using placed_rect_free_unless_all_positions_taken [OF j', THEN conjunct2, THEN conjunct1] g
    by (rule mp)
  from f a g b show ?thesis unfolding n by blast
qed

text \<open>
  C1, as the specification states it, fails. A selected city with fifteen self-loop pairs
  gives the selection pass sixteen equal labels on one anchor. The first fifteen take
  the six mutually free candidates and nine scan slots; for the sixteenth every one of
  the twenty positions is taken, the scan ends without a free slot, and the label stays
  at the default position, exactly on the rectangle of the first label.
\<close>

theorem sixteen_equal_labels_overlap:
  "connected origin_projection selection_loops = replicate 16 label_A
   \<and> map label_rect (selectedConnectedCities origin_projection (Some selection_loops))
       = placedRects_of (replicate 16 label_A)
   \<and> rects_overlap (placedRects_of (replicate 16 label_A) ! 15) (placedRects_of (replicate 16 label_A) ! 0)
   \<and> placedRects_of (replicate 16 label_A) ! 15 = placedRects_of (replicate 16 label_A) ! 0"
proof -
  have s: "map label_rect (selectedConnectedCities origin_projection (Some selection_loops))
      = placedRects_of (replicate 16 label_A)"
    by (simp add: selectedConnectedCities_def connected_loops rects_are_label_rects)
  have a: "placedRects_of (replicate 16 label_A) ! 15 = rect_A (7, -8)"
    by (simp add: rects_sixteen nth_append length_rects_A)
  have b: "placedRects_of (replicate 16 label_A) ! 0 = rect_A (7, -8)"
    by (simp add: rects_sixteen nth_append length_rects_A) (simp add: rects_A_def slots_A_def)
  have "rects_overlap (rect_A (7, -8)) (rect_A (7, -8))"
    by (simp add: rects_overlap_def hits_def rect_A_def lh_def pad_def)
  with s connected_loops show ?thesis unfolding a b by simp
qed

lemma rects_seven: "placedRects_of (replicate 7 label_A) = rects_A 7"
  using pass_A [of 0 7] by (simp add: placedRects_of_def rects_A_def)

lemma take_rects_seven: "take 6 (placedRects_of (replicate 7 label_A)) = rects_A 6"
  unfolding rects_seven by (simp add: rects_A_def slots_A_def eval_nat_numeral)

lemma seventh_rect: "placedRects_of (replicate 7 label_A) ! 6 = rect_A (7, 51)"
  unfolding rects_seven by (simp add: rects_A_def slots_A_def eval_nat_numeral)

lemma candidates_taken_seven: "\<forall>k<8. \<not> free_at label_A (rects_A 6) (candidate label_A k)"
  by (simp add: All_less_Suc eval_nat_numeral free_at_def candidate_def place_defs)

lemma scan_seven:
  "free_at label_A (rects_A 6) (scan_slot label_A 3)"
  "\<forall>i<3. \<not> free_at label_A (rects_A 6) (scan_slot label_A i)"
  "scan_slot label_A 3 = (7, 51)"
  by (simp_all add: All_less_Suc eval_nat_numeral free_at_def scan_slot_def place_defs)

lemma candidates_A:
  "map (candidate label_A) [0..<8] =
     [(7, -8), (7, 6), (-24.5, -8), (-24.5, 6), (7, -25), (7, 23), (-24.5, -25), (-24.5, 23)]"
  by (simp add: candidate_positions Let_def label_A_def make_label_def labelWidth_def)

text \<open>
  C7, as the code has it. For every node of a placement pass: when one of the eight
  candidates is free of the rectangles placed before it, the position chosen is the
  first free candidate in the order right-above, right-below, left-above, left-below and
  then the same four moved away vertically by the label height plus the padding (17, not
  the label height 15). When none of the eight is free, the position is the first free
  slot of the downward scan, and the position the label came with when no slot is free
  either. The rectangles and labels of the earlier nodes are those of the pass over the
  earlier nodes alone: later nodes never revise them.
\<close>

theorem candidate_choice_and_fallback:
  assumes "j < length cs"
  shows "(\<forall>k<8. free_at (cs ! j) (take j (placedRects_of cs)) (candidate (cs ! j) k)
              \<and> (\<forall>k'<k. \<not> free_at (cs ! j) (take j (placedRects_of cs)) (candidate (cs ! j) k'))
            \<longrightarrow> (rx (placedRects_of cs ! j), ry (placedRects_of cs ! j)) = candidate (cs ! j) k)
       \<and> ((\<forall>k<8. \<not> free_at (cs ! j) (take j (placedRects_of cs)) (candidate (cs ! j) k)) \<longrightarrow>
            (\<forall>i<12. free_at (cs ! j) (take j (placedRects_of cs)) (scan_slot (cs ! j) i)
                  \<and> (\<forall>i'<i. \<not> free_at (cs ! j) (take j (placedRects_of cs)) (scan_slot (cs ! j) i'))
                \<longrightarrow> (rx (placedRects_of cs ! j), ry (placedRects_of cs ! j)) = scan_slot (cs ! j) i)
            \<and> ((\<forall>i<12. \<not> free_at (cs ! j) (take j (placedRects_of cs)) (scan_slot (cs ! j) i)) \<longrightarrow>
                 (rx (placedRects_of cs ! j), ry (placedRects_of cs ! j))
                   = (labelX (cs ! j), labelY (cs ! j))))
       \<and> (labelX (fst (placeLabels cs []) ! j), labelY (fst (placeLabels cs []) ! j))
           = (rx (placedRects_of cs ! j), ry (placedRects_of cs ! j))
       \<and> take j (placedRects_of cs) = placedRects_of (take j cs)
       \<and> take j (fst (placeLabels cs [])) = fst (placeLabels (take j cs) [])
       \<and> map (candidate (cs ! j)) [0..<8] =
           (let px = fst (projected (cs ! j)); py = snd (projected (cs ! j));
                lw = labelWidth (cs ! j)
            in [(px + 7, py - 8), (px + 7, py + 6), (px - lw - 5, py - 8), (px - lw - 5, py + 6),
                (px + 7, py - 25), (px + 7, py + 23), (px - lw - 5, py - 25),
                (px - lw - 5, py + 23)])"
proof -
  let ?R = "placedRects_of cs"
  let ?c = "cs ! j"
  let ?P = "take j ?R"
  have rj: "?R ! j = placed_rect ?c ?P" by (rule rect_nth [OF assms])
  have pos: "(rx (?R ! j), ry (?R ! j)) = placeOne ?c ?P"
    by (simp add: rj placed_rect_def)
  have 1: "\<forall>k<8. free_at ?c ?P (candidate ?c k) \<and> (\<forall>k'<k. \<not> free_at ?c ?P (candidate ?c k'))
      \<longrightarrow> (rx (?R ! j), ry (?R ! j)) = candidate ?c k"
    unfolding pos by (intro allI impI placeOne_first) blast+
  have 2: "\<forall>i<12. free_at ?c ?P (scan_slot ?c i) \<and> (\<forall>i'<i. \<not> free_at ?c ?P (scan_slot ?c i'))
      \<longrightarrow> (rx (?R ! j), ry (?R ! j)) = scan_slot ?c i"
    if "\<forall>k<8. \<not> free_at ?c ?P (candidate ?c k)"
    unfolding pos using that by (intro allI impI placeOne_scan) blast+
  have 3: "(rx (?R ! j), ry (?R ! j)) = (labelX ?c, labelY ?c)"
    if "\<forall>k<8. \<not> free_at ?c ?P (candidate ?c k)" and "\<forall>i<12. \<not> free_at ?c ?P (scan_slot ?c i)"
    unfolding pos using that by (intro placeOne_default) (simp add: some_position_free_def)
  have 4: "(labelX (fst (placeLabels cs []) ! j), labelY (fst (placeLabels cs []) ! j))
      = (rx (?R ! j), ry (?R ! j))"
    using label_nth [OF assms, of "[]"] by (simp add: placedRects_of_def)
  have 5: "take j ?R = placedRects_of (take j cs)"
    using placed_take [of j cs "[]"] assms by (simp add: placedRects_of_def)
  have 6: "take j (fst (placeLabels cs [])) = fst (placeLabels (take j cs) [])"
    using labels_take [of j cs "[]"] assms by simp
  from 1 2 3 4 5 6 candidate_positions [of ?c] show ?thesis by blast
qed

theorem candidate_choice_and_fallback_witness:
  "(rx (placedRects_of [label_A, label_A] ! 1), ry (placedRects_of [label_A, label_A] ! 1))
     = candidate label_A 2
   \<and> candidate label_A 2 = (-24.5, -8)
   \<and> (rx (placedRects_of (replicate 7 label_A) ! 6), ry (placedRects_of (replicate 7 label_A) ! 6))
     = scan_slot label_A 3
   \<and> scan_slot label_A 3 = (7, 51)
   \<and> (rx (placedRects_of (replicate 16 label_A) ! 15), ry (placedRects_of (replicate 16 label_A) ! 15))
     = (labelX label_A, labelY label_A)
   \<and> take 6 (placedRects_of (replicate 7 label_A)) = placedRects_of (take 6 (replicate 7 label_A))"
proof -
  have j1: "(1::nat) < length [label_A, label_A]" by simp
  have n1: "[label_A, label_A] ! 1 = label_A" by simp
  have t1: "take 1 (placedRects_of [label_A, label_A]) = rects_A (Suc 0)"
    using take_rects_two by simp
  have f1: "free_at label_A (rects_A (Suc 0)) (candidate label_A 2)
      \<and> (\<forall>k'<2. \<not> free_at label_A (rects_A (Suc 0)) (candidate label_A k'))"
    using free_two by (simp add: All_less_Suc eval_nat_numeral)
  have a: "(rx (placedRects_of [label_A, label_A] ! 1), ry (placedRects_of [label_A, label_A] ! 1))
      = candidate label_A 2"
    using candidate_choice_and_fallback [OF j1, THEN conjunct1, rule_format, of 2] f1
    unfolding n1 t1 by simp
  have c2: "candidate label_A 2 = (-24.5, -8)"
    by (simp add: candidate_def eval_nat_numeral place_defs)
  have j7: "(6::nat) < length (replicate 7 label_A)" by simp
  have n7: "replicate 7 label_A ! 6 = label_A" by simp
  have b: "(rx (placedRects_of (replicate 7 label_A) ! 6), ry (placedRects_of (replicate 7 label_A) ! 6))
      = scan_slot label_A 3"
    using candidate_choice_and_fallback [OF j7, THEN conjunct2, THEN conjunct1, rule_format,
        THEN conjunct1, rule_format, of 3]
      candidates_taken_seven scan_seven(1,2)
    unfolding n7 take_rects_seven by simp
  have j16: "(15::nat) < length (replicate 16 label_A)" by simp
  have n16: "replicate 16 label_A ! 15 = label_A" by simp
  have t16: "take 15 (placedRects_of (replicate 16 label_A)) = rects_A 15"
    by (simp add: rects_sixteen length_rects_A)
  have full: "(\<forall>k<8. \<not> free_at label_A (rects_A 15) (candidate label_A k))
      \<and> (\<forall>i<12. \<not> free_at label_A (rects_A 15) (scan_slot label_A i))"
    using all_positions_taken_A by (simp add: some_position_free_def)
  have c: "(rx (placedRects_of (replicate 16 label_A) ! 15), ry (placedRects_of (replicate 16 label_A) ! 15))
      = (labelX label_A, labelY label_A)"
    using candidate_choice_and_fallback [OF j16, THEN conjunct2, THEN conjunct1, rule_format,
        THEN conjunct2, rule_format] full
    unfolding n16 t16 by blast
  have d: "take 6 (placedRects_of (replicate 7 label_A)) = placedRects_of (take 6 (replicate 7 label_A))"
    using candidate_choice_and_fallback [OF j7] by blast
  from a c2 b scan_seven(3) c d show ?thesis by blast
qed

text \<open>
  C7, as the specification states it, fails. In a pass over seven equal labels on one
  anchor, all eight candidates of the seventh label are taken by the six labels before
  it, and the seventh lands on the scan slot 51 below the anchor, which is none of the
  eight candidates. The fifth candidate lies 25 above the anchor, 17 beyond the first,
  where one label-height further away would be 23.
\<close>

theorem seventh_label_off_candidates:
  "list_all (\<lambda>k. \<not> free_at (replicate 7 label_A ! 6) (take 6 (placedRects_of (replicate 7 label_A)))
               (candidate (replicate 7 label_A ! 6) k)) [0..<8]
   \<and> (rx (placedRects_of (replicate 7 label_A) ! 6), ry (placedRects_of (replicate 7 label_A) ! 6))
       = (7, 51)
   \<and> (7, 51) \<notin> set (map (candidate (replicate 7 label_A ! 6)) [0..<8])
   \<and> fst (projected label_A) + fst (offsets (labelWidth label_A) ! 4) = 7
   \<and> snd (projected label_A) + snd (offsets (labelWidth label_A) ! 4) = -25
   \<and> snd (projected label_A) + snd (spec_offsets (labelWidth label_A) ! 4) = -23"
proof -
  have n7: "replicate 7 label_A ! 6 = label_A" by simp
  have 1: "list_all (\<lambda>k. \<not> free_at label_A (rects_A 6) (candidate label_A k)) [0..<8]"
    using candidates_taken_seven by (simp add: list_all_iff)
  have 2: "(rx (placedRects_of (replicate 7 label_A) ! 6), ry (placedRects_of (replicate 7 label_A) ! 6))
      = (7, 51)"
    by (simp add: seventh_rect rect_A_def)
  have 3: "(7, 51) \<notin> set (map (candidate label_A) [0..<8])"
    unfolding candidates_A by simp
  have 4: "fst (projected label_A) + fst (offsets (labelWidth label_A) ! 4) = 7"
    "snd (projected label_A) + snd (offsets (labelWidth label_A) ! 4) = -25"
    "snd (projected label_A) + snd (spec_offsets (labelWidth label_A) ! 4) = -23"
    by (simp_all add: offsets_def spec_offsets_def label_A_def make_label_def lh_def pad_def
        eval_nat_numeral)
  from 1 2 3 4 show ?thesis unfolding n7 take_rects_seven by blast
qed

end
